theory Spec2Isabelle
  imports Complex_Main
begin

section \<open>Strings and errors\<close>

text \<open>
  The program is \<^verbatim>\<open>gpublog-demo/backend/model.py\<close>. A Python \<^verbatim>\<open>str\<close> is modelled as
  a HOL \<open>string\<close>: a list of characters, each one of the 256 code points U+0000..U+00FF
  (so the inverted question mark of the source's regular expressions is the character
  of code point \<open>0xBF\<close>).
  Code points above U+00FF are outside the input type. A raised exception is a value
  \<open>Inl e\<close> of the result type.
\<close>

datatype error =
    KeyError string       \<comment> \<open>a \<^verbatim>\<open>dict\<close> lookup of a missing token\<close>
  | KeyErrorId nat        \<comment> \<open>a \<^verbatim>\<open>dict\<close> lookup of a missing token id\<close>
  | ValueError
  | ZeroDivisionError
  | InvalidArgument       \<comment> \<open>a reduction over an empty axis\<close>

subsection \<open>The library's string operations on U+0000..U+00FF\<close>

definition code_point :: "char \<Rightarrow> nat" where
  "code_point c = of_char c"

text \<open>\<^verbatim>\<open>str.isspace\<close> for one character: the whitespace of \<^verbatim>\<open>str.strip()\<close>.\<close>

definition isspace :: "char \<Rightarrow> bool" where
  "isspace c = (let n = code_point c in
     (9 \<le> n \<and> n \<le> 13) \<or> (28 \<le> n \<and> n \<le> 32) \<or> n = 133 \<or> n = 160)"

definition strip :: "string \<Rightarrow> string" where
  "strip w = rev (dropWhile isspace (rev (dropWhile isspace w)))"

text \<open>
  \<^verbatim>\<open>str.lower()\<close>: A..Z and the capital letters U+00C0..U+00DE (the multiplication sign
  U+00D7 apart) move up by 32; every other character of the range stays.
\<close>

definition lower_char :: "char \<Rightarrow> char" where
  "lower_char c = (let n = code_point c in
     if (65 \<le> n \<and> n \<le> 90) \<or> (192 \<le> n \<and> n \<le> 222 \<and> n \<noteq> 215)
     then char_of (n + 32) else c)"

definition lower :: "string \<Rightarrow> string" where
  "lower w = map lower_char w"

text \<open>
  A code point of a decomposed string: one of U+0000..U+00FF, or a larger one by its
  number.
\<close>

datatype code_pt = Latin char | Above nat

text \<open>
  \<^verbatim>\<open>unicodedata.normalize('NFD', s)\<close>: the canonical decompositions of the range, each a
  base letter followed by one combining mark above U+00FF, by their numbers. Every
  character that is not in the table (so every one below U+00C0) decomposes to itself.
\<close>

definition nfd_table :: "(nat \<times> nat \<times> nat) list" where
  "nfd_table =
    [
     (0xC0, 0x41, 0x300), (0xC1, 0x41, 0x301), (0xC2, 0x41, 0x302), (0xC3, 0x41, 0x303),
     (0xC4, 0x41, 0x308), (0xC5, 0x41, 0x30A), (0xC7, 0x43, 0x327), (0xC8, 0x45, 0x300),
     (0xC9, 0x45, 0x301), (0xCA, 0x45, 0x302), (0xCB, 0x45, 0x308), (0xCC, 0x49, 0x300),
     (0xCD, 0x49, 0x301), (0xCE, 0x49, 0x302), (0xCF, 0x49, 0x308), (0xD1, 0x4E, 0x303),
     (0xD2, 0x4F, 0x300), (0xD3, 0x4F, 0x301), (0xD4, 0x4F, 0x302), (0xD5, 0x4F, 0x303),
     (0xD6, 0x4F, 0x308), (0xD9, 0x55, 0x300), (0xDA, 0x55, 0x301), (0xDB, 0x55, 0x302),
     (0xDC, 0x55, 0x308), (0xDD, 0x59, 0x301),
     (0xE0, 0x61, 0x300), (0xE1, 0x61, 0x301), (0xE2, 0x61, 0x302), (0xE3, 0x61, 0x303),
     (0xE4, 0x61, 0x308), (0xE5, 0x61, 0x30A), (0xE7, 0x63, 0x327), (0xE8, 0x65, 0x300),
     (0xE9, 0x65, 0x301), (0xEA, 0x65, 0x302), (0xEB, 0x65, 0x308), (0xEC, 0x69, 0x300),
     (0xED, 0x69, 0x301), (0xEE, 0x69, 0x302), (0xEF, 0x69, 0x308), (0xF1, 0x6E, 0x303),
     (0xF2, 0x6F, 0x300), (0xF3, 0x6F, 0x301), (0xF4, 0x6F, 0x302), (0xF5, 0x6F, 0x303),
     (0xF6, 0x6F, 0x308), (0xF9, 0x75, 0x300), (0xFA, 0x75, 0x301), (0xFB, 0x75, 0x302),
     (0xFC, 0x75, 0x308), (0xFD, 0x79, 0x301), (0xFF, 0x79, 0x308)]"

definition nfd_char :: "char \<Rightarrow> code_pt list" where
  "nfd_char c = (let n = code_point c in
     if n < 0xC0 then [Latin c]
     else (case map_of nfd_table n of
             None \<Rightarrow> [Latin c]
           | Some (base, mark) \<Rightarrow> [Latin (char_of base), Above mark]))"

definition normalize_NFD :: "string \<Rightarrow> code_pt list" where
  "normalize_NFD s = concat (map nfd_char s)"

text \<open>\<^verbatim>\<open>unicodedata.category(c) == 'Mn'\<close>: no character of U+0000..U+00FF is a nonspacing
  mark; above, the combining diacritical marks U+0300..U+036F are.\<close>

fun category_Mn :: "code_pt \<Rightarrow> bool" where
  "category_Mn (Latin c) = False"
| "category_Mn (Above n) = (0x300 \<le> n \<and> n \<le> 0x36F)"

text \<open>\<^verbatim>\<open>''.join(...)\<close> of the code points that are left: all of them are in the range.\<close>

fun join :: "code_pt list \<Rightarrow> string" where
  "join [] = []"
| "join (Latin c # cs) = c # join cs"
| "join (Above n # cs) = join cs"

definition unicode_to_ascii :: "string \<Rightarrow> string" where
  "unicode_to_ascii s = join (filter (\<lambda>c. \<not> category_Mn c) (normalize_NFD s))"

subsection \<open>The regular-expression substitutions\<close>

text \<open>The character class \<^verbatim>\<open>[?.!,\<close>U+00BF\<^verbatim>\<open>]\<close>.\<close>

definition is_punct :: "char \<Rightarrow> bool" where
  "is_punct c = (c = CHR ''?'' \<or> c = CHR ''.'' \<or> c = CHR ''!'' \<or> c = CHR '','' \<or> code_point c = 0xBF)"

definition is_letter :: "char \<Rightarrow> bool" where
  "is_letter c = (let n = code_point c in (97 \<le> n \<and> n \<le> 122) \<or> (65 \<le> n \<and> n \<le> 90))"

text \<open>The complement class \<^verbatim>\<open>[^a-zA-Z?.!,\<close>U+00BF\<^verbatim>\<open>]\<close>.\<close>

definition not_kept :: "char \<Rightarrow> bool" where
  "not_kept c = (\<not> is_letter c \<and> \<not> is_punct c)"

text \<open>The class \<^verbatim>\<open>[" "]\<close>: a double quote or a space.\<close>

definition quote_or_space :: "char \<Rightarrow> bool" where
  "quote_or_space c = (code_point c = 0x22 \<or> c = CHR '' '')"

text \<open>\<^verbatim>\<open>re.sub(r"([?.!,..])", r" \1 ", w)\<close>: every character of the class gets a space on
  each side.\<close>

definition pad_punct :: "string \<Rightarrow> string" where
  "pad_punct w = concat (map (\<lambda>c. if is_punct c then [CHR '' '', c, CHR '' ''] else [c]) w)"

text \<open>\<^verbatim>\<open>re.sub(r"[class]+", " ", w)\<close>: every maximal run of characters of the class is
  replaced by one space. \<open>in_run\<close> says that the previous character was of the class.\<close>

primrec sub_runs_from :: "(char \<Rightarrow> bool) \<Rightarrow> bool \<Rightarrow> string \<Rightarrow> string" where
  "sub_runs_from P in_run [] = []"
| "sub_runs_from P in_run (c # cs) =
     (if P c then (if in_run then sub_runs_from P True cs
                   else CHR '' '' # sub_runs_from P True cs)
      else c # sub_runs_from P False cs)"

definition sub_runs :: "(char \<Rightarrow> bool) \<Rightarrow> string \<Rightarrow> string" where
  "sub_runs P w = sub_runs_from P False w"

text \<open>The padding of the punctuation followed by the last substitution, from a given
  state of the run: what the statements about \<open>sentence_body\<close> are proved through.\<close>

definition spaced :: "bool \<Rightarrow> string \<Rightarrow> string" where
  "spaced in_run w = sub_runs_from not_kept in_run (pad_punct w)"

subsection \<open>preprocess_sentence\<close>

text \<open>Lines 24 to 35 of the source: everything \<^verbatim>\<open>preprocess_sentence\<close> does before it
  adds the two markers.\<close>

definition sentence_body :: "string \<Rightarrow> string" where
  "sentence_body w0 =
     (let w = unicode_to_ascii (strip (lower w0));
          w = pad_punct w;
          w = sub_runs quote_or_space w;
          w = sub_runs not_kept w;
          w = strip w
      in w)"

definition preprocess_sentence :: "string \<Rightarrow> string" where
  "preprocess_sentence w = ''<start> '' @ sentence_body w @ '' <end>''"

section \<open>The network's arithmetic\<close>

text \<open>
  Tensor entries are modelled as real numbers: rounding, overflow and NaN of the
  floating-point types are outside the model. A vector is a list, a batch a list of rows.
  The layers of the library (Dense, Embedding, GRU) are parameters of the definitions
  that call them.
\<close>

subsection \<open>loss_function\<close>

text \<open>
  \<open>loss_object\<close> is the per-example loss \<^verbatim>\<open>SparseCategoricalCrossentropy(from_logits=True,
  reduction='none')\<close>: from one true id and one row of logits to one number.
  \<open>real_ids\<close> is the source's \<^verbatim>\<open>real\<close>, the true ids of one target position
  across the batch; \<open>losses\<close> is its \<^verbatim>\<open>loss_\<close>.
\<close>

definition mask_of :: "nat list \<Rightarrow> real list" where
  "mask_of real_ids = map (\<lambda>y. if \<not> (y = 0) then 1 else 0) real_ids"

definition masked_loss :: "(nat \<Rightarrow> real list \<Rightarrow> real) \<Rightarrow> nat list \<Rightarrow> real list list \<Rightarrow> real list" where
  "masked_loss loss_object real_ids pred =
     (let mask = mask_of real_ids;
          losses = map2 loss_object real_ids pred
      in map2 (*) losses mask)"

definition reduce_mean :: "real list \<Rightarrow> real" where
  "reduce_mean xs = sum_list xs / real (length xs)"

definition loss_function :: "(nat \<Rightarrow> real list \<Rightarrow> real) \<Rightarrow> nat list \<Rightarrow> real list list \<Rightarrow> real" where
  "loss_function loss_object real_ids pred = reduce_mean (masked_loss loss_object real_ids pred)"

subsection \<open>BahdanauAttention.call\<close>





section \<open>The tokenizer\<close>

text \<open>
  \<^verbatim>\<open>tokenize\<close> calls the library's \<^verbatim>\<open>Tokenizer(filters='')\<close>, with its defaults
  \<^verbatim>\<open>lower=True\<close>, \<^verbatim>\<open>split=' '\<close>, no \<^verbatim>\<open>num_words\<close> and no \<^verbatim>\<open>oov_token\<close>.
  The definitions of this section follow that class: \<^verbatim>\<open>fit_on_texts\<close> counts the words
  in an insertion-ordered dictionary, sorts the entries by count with
  \<^verbatim>\<open>sort(key=..., reverse=True)\<close> (a stable sort) and numbers the sorted words from 1.
  A dictionary whose order matters is an association list.
\<close>

text \<open>\<^verbatim>\<open>str.split(sep)\<close> for a separator of one character: the pieces between
  separators, empty pieces included.\<close>

fun split_on :: "char \<Rightarrow> string \<Rightarrow> string list" where
  "split_on sep [] = [[]]"
| "split_on sep (c # cs) =
     (if c = sep then [] # split_on sep cs
      else (case split_on sep cs of [] \<Rightarrow> [[c]] | w # ws \<Rightarrow> (c # w) # ws))"

definition split_sp :: "string \<Rightarrow> string list" where
  "split_sp w = split_on (CHR '' '') w"

text \<open>\<^verbatim>\<open>text_to_word_sequence\<close> with no filter characters: lower, split, drop the empty
  pieces.\<close>

definition text_to_word_sequence :: "string \<Rightarrow> string list" where
  "text_to_word_sequence text = filter (\<lambda>i. i \<noteq> []) (split_sp (lower text))"

record Tokenizer =
  word_index :: "(string \<times> nat) list"
  index_word :: "(nat \<times> string) list"

text \<open>\<^verbatim>\<open>if w in word_counts: word_counts[w] += 1 else: word_counts[w] = 1\<close>; a new word goes
  to the end.\<close>

fun add_count :: "string \<Rightarrow> (string \<times> nat) list \<Rightarrow> (string \<times> nat) list" where
  "add_count w [] = [(w, 1)]"
| "add_count w ((k, n) # kvs) = (if k = w then (k, n + 1) # kvs else (k, n) # add_count w kvs)"

text \<open>The words of all texts, in the order \<^verbatim>\<open>fit_on_texts\<close> meets them.\<close>

definition corpus_tokens :: "string list \<Rightarrow> string list" where
  "corpus_tokens texts = concat (map text_to_word_sequence texts)"

definition word_counts :: "string list \<Rightarrow> (string \<times> nat) list" where
  "word_counts texts = foldl (\<lambda>wc w. add_count w wc) [] (corpus_tokens texts)"

definition sorted_voc :: "string list \<Rightarrow> string list" where
  "sorted_voc texts =
     (let wcounts = word_counts texts;
          wcounts = sort_key (\<lambda>x. - int (snd x)) wcounts
      in map fst wcounts)"

definition fit_on_texts :: "string list \<Rightarrow> Tokenizer" where
  "fit_on_texts texts =
     (let voc = sorted_voc texts;
          wi = zip voc [1..<length voc + 1]
      in \<lparr>word_index = wi, index_word = map (\<lambda>(w, c). (c, w)) wi\<rparr>)"

text \<open>\<^verbatim>\<open>texts_to_sequences\<close>: the ids of the words the index knows; the others are
  skipped.\<close>

definition texts_to_sequences :: "Tokenizer \<Rightarrow> string list \<Rightarrow> nat list list" where
  "texts_to_sequences tk texts =
     map (\<lambda>text. List.map_filter (map_of (word_index tk)) (text_to_word_sequence text)) texts"

text \<open>\<^verbatim>\<open>pad_sequences(tensor, padding='post')\<close>: every row filled with 0 at its end up to
  the longest row.\<close>

definition pad_sequences :: "nat list list \<Rightarrow> nat list list" where
  "pad_sequences seqs =
     (let maxlen = foldr max (map length seqs) 0
      in map (\<lambda>s. s @ replicate (maxlen - length s) 0) seqs)"

definition tokenize :: "string list \<Rightarrow> nat list list \<times> Tokenizer" where
  "tokenize lang =
     (let lang_tokenizer = fit_on_texts lang;
          tensor = texts_to_sequences lang_tokenizer lang;
          tensor = pad_sequences tensor
      in (tensor, lang_tokenizer))"

text \<open>
  The numbering as the specification words it, for comparison with \<open>fit_on_texts\<close>: the
  distinct tokens in order of first occurrence, numbered from 1.
\<close>

definition first_occurrence_order :: "'a list \<Rightarrow> 'a list" where
  "first_occurrence_order xs = rev (remdups (rev xs))"

definition spec_word_index :: "string list \<Rightarrow> (string \<times> nat) list" where
  "spec_word_index texts =
     (let voc = first_occurrence_order (corpus_tokens texts)
      in zip voc [1..<length voc + 1])"

section \<open>TranslatorModel\<close>

text \<open>
  The fields of the object that the claims read. \<open>dataset\<close> holds the training pairs
  the \<^verbatim>\<open>tf.data\<close> pipeline is built from; the pipeline's \<^verbatim>\<open>shuffle\<close> and \<^verbatim>\<open>batch\<close>
  run when an epoch iterates it (see \<open>epoch_batches\<close>). The encoder, the decoder and the
  optimizer are parameters of the methods that call them.
\<close>

record translator =
  inp_lang_tokenizer :: Tokenizer
  targ_lang_tokenizer :: Tokenizer
  input_tensor :: "nat list list"
  target_tensor :: "nat list list"
  max_length_targ :: nat
  max_length_inp :: nat
  vocab_inp_size :: nat
  vocab_tar_size :: nat
  BUFFER_SIZE :: nat
  steps_per_epoch :: nat
  dataset :: "(nat list \<times> nat list) list"

definition BATCH_SIZE :: nat where
  "BATCH_SIZE = 64"

text \<open>\<^verbatim>\<open>d[key]\<close> on a dictionary: the value, or KeyError.\<close>

definition lookup_token :: "(string \<times> nat) list \<Rightarrow> string \<Rightarrow> error + nat" where
  "lookup_token d w = (case map_of d w of None \<Rightarrow> Inl (KeyError w) | Some i \<Rightarrow> Inr i)"

definition lookup_id :: "(nat \<times> string) list \<Rightarrow> nat \<Rightarrow> error + string" where
  "lookup_id d i = (case map_of d i of None \<Rightarrow> Inl (KeyErrorId i) | Some w \<Rightarrow> Inr w)"

text \<open>\<^verbatim>\<open>tensor.shape[1]\<close> and \<^verbatim>\<open>tensor[:, t]\<close> of a batch of rows. A tensor is rectangular;
  the batches of training have 64 rows.\<close>

definition shape1 :: "'a list list \<Rightarrow> nat" where
  "shape1 tensor = (case tensor of [] \<Rightarrow> 0 | row # _ \<Rightarrow> length row)"

definition column :: "'a list list \<Rightarrow> nat \<Rightarrow> 'a list" where
  "column tensor t = map (\<lambda>row. row ! t) tensor"

subsection \<open>_load\<close>

text \<open>\<^verbatim>\<open>zip(*rows)\<close>: the columns, as many as the shortest row has entries.\<close>

definition zip_star :: "'a list list \<Rightarrow> 'a list list" where
  "zip_star rows =
     (if rows = [] then []
      else map (\<lambda>j. map (\<lambda>r. r ! j) rows) [0..<foldr min (map length (tl rows)) (length (hd rows))])"

text \<open>\<open>lines\<close> are the lines of the corpus file; \<open>num_examples\<close> is \<open>None\<close> for the
  source's \<^verbatim>\<open>None\<close>.\<close>

definition load_dataset :: "string list \<Rightarrow> nat option \<Rightarrow> string list list" where
  "load_dataset lines num_examples =
     (let num_examples = (case num_examples of None \<Rightarrow> length lines | Some n \<Rightarrow> n);
          word_pairs = map (\<lambda>l. map preprocess_sentence (split_on (CHR 0x09) l))
                         (take num_examples lines)
      in zip_star word_pairs)"

text \<open>
  \<^verbatim>\<open>train_test_split(X, Y, test_size=0.2)\<close> of the library: with \<open>n\<close> samples the test
  set has \<open>ceil(0.2 * n)\<close> of them, which is \<open>(n + 4) div 5\<close>, the training set the rest,
  and an empty training set is a ValueError. \<open>perm\<close> is the random permutation of
  \<open>[0..<n]\<close> that the call draws: its first indices go to the test set, the next ones
  to the training set.
\<close>

definition train_test_split ::
  "nat list \<Rightarrow> 'a list \<Rightarrow> 'b list \<Rightarrow> error + ('a list \<times> 'a list \<times> 'b list \<times> 'b list)" where
  "train_test_split perm X Y =
     (let n_samples = length X;
          n_test = (n_samples + 4) div 5;
          n_train = n_samples - n_test
      in if n_train = 0 then Inl ValueError
         else (let ind_test = take n_test perm;
                   ind_train = take n_train (drop n_test perm)
               in Inr (map ((!) X) ind_train, map ((!) X) ind_test,
                       map ((!) Y) ind_train, map ((!) Y) ind_test)))"

text \<open>The number of sentence pairs that \<open>load_dataset\<close> reads.\<close>

definition loaded_pairs :: "string list \<Rightarrow> nat option \<Rightarrow> nat" where
  "loaded_pairs lines num_examples =
     length (take (case num_examples of None \<Rightarrow> length lines | Some n \<Rightarrow> n) lines)"

text \<open>The body of \<^verbatim>\<open>_load\<close> from line 216 on, once \<^verbatim>\<open>self.inp_lang\<close> and
  \<^verbatim>\<open>self.targ_lang\<close> are set: the two tokenizers, the sizes, the split, the training
  data.\<close>

definition load_langs :: "nat list \<Rightarrow> string list \<Rightarrow> string list \<Rightarrow> error + translator" where
  "load_langs perm inp_lang targ_lang =
     (let (input_tensor, inp_tok) = tokenize inp_lang;
          (target_tensor, targ_tok) = tokenize targ_lang
      in case train_test_split perm input_tensor target_tensor of
           Inl e \<Rightarrow> Inl e
         | Inr (input_tensor_train, input_tensor_val, target_tensor_train, target_tensor_val) \<Rightarrow>
             Inr \<lparr>inp_lang_tokenizer = inp_tok,
                  targ_lang_tokenizer = targ_tok,
                  input_tensor = input_tensor,
                  target_tensor = target_tensor,
                  max_length_targ = shape1 target_tensor,
                  max_length_inp = shape1 input_tensor,
                  vocab_inp_size = length (word_index inp_tok) + 1,
                  vocab_tar_size = length (word_index targ_tok) + 1,
                  BUFFER_SIZE = length input_tensor_train,
                  steps_per_epoch = length input_tensor_train div BATCH_SIZE,
                  dataset = zip input_tensor_train target_tensor_train\<rparr>)"

text \<open>\<^verbatim>\<open>_load\<close>. \<open>eng_first\<close> is \<^verbatim>\<open>self.lang.startswith('eng-')\<close>: it decides which
  column is the input language. Unpacking the columns into two names is a ValueError
  unless there are exactly two.\<close>

definition load :: "bool \<Rightarrow> string list \<Rightarrow> nat option \<Rightarrow> nat list \<Rightarrow> error + translator" where
  "load eng_first lines num_examples perm =
     (case load_dataset lines num_examples of
        [c1, c2] \<Rightarrow> (if eng_first then load_langs perm c1 c2 else load_langs perm c2 c1)
      | _ \<Rightarrow> Inl ValueError)"

subsection \<open>train_step\<close>

text \<open>
  The loop \<^verbatim>\<open>for t in range(1, targ.shape[1])\<close>. \<open>dec\<close> is the decoder on a batch: from
  the input ids, the hidden state and the encoder output to the logits of each row and
  the new hidden state. The state of the loop is \<^verbatim>\<open>dec_input\<close>, \<^verbatim>\<open>dec_hidden\<close>,
  \<^verbatim>\<open>loss\<close> and, for the statements about it, the list \<open>fed\<close> of the inputs the decoder
  has been called with so far.
\<close>

fun decoder_loop ::
  "(nat list \<Rightarrow> 'h \<Rightarrow> 'e \<Rightarrow> real list list \<times> 'h) \<Rightarrow> (nat \<Rightarrow> real list \<Rightarrow> real) \<Rightarrow> 'e \<Rightarrow>
   nat list list \<Rightarrow> nat list \<Rightarrow> nat list \<times> 'h \<times> real \<times> nat list list \<Rightarrow>
   nat list \<times> 'h \<times> real \<times> nat list list" where
  "decoder_loop dec loss_object enc_output targ [] st = st"
| "decoder_loop dec loss_object enc_output targ (t # ts) (dec_input, dec_hidden, loss, fed) =
     (let (predictions, dec_hidden') = dec dec_input dec_hidden enc_output;
          loss' = loss + loss_function loss_object (column targ t) predictions;
          dec_input' = column targ t
      in decoder_loop dec loss_object enc_output targ ts
           (dec_input', dec_hidden', loss', fed @ [dec_input]))"

text \<open>The body of \<^verbatim>\<open>with tf.GradientTape()\<close> for the variables \<open>\<theta>\<close>: the encoder, then
  the loop from the start marker.\<close>

definition forward_pass ::
  "('p \<Rightarrow> nat list list \<Rightarrow> 'h \<Rightarrow> 'e \<times> 'h) \<Rightarrow> ('p \<Rightarrow> nat list \<Rightarrow> 'h \<Rightarrow> 'e \<Rightarrow> real list list \<times> 'h) \<Rightarrow>
   (nat \<Rightarrow> real list \<Rightarrow> real) \<Rightarrow> nat \<Rightarrow> 'p \<Rightarrow> nat list list \<Rightarrow> nat list list \<Rightarrow> 'h \<Rightarrow>
   nat list \<times> 'h \<times> real \<times> nat list list" where
  "forward_pass encoder decoder loss_object start \<theta> inp targ enc_hidden =
     (let (enc_output, enc_hidden') = encoder \<theta> inp enc_hidden;
          dec_hidden = enc_hidden';
          dec_input = replicate BATCH_SIZE start
      in decoder_loop (decoder \<theta>) loss_object enc_output targ [1..<shape1 targ]
           (dec_input, dec_hidden, 0, []))"

definition decoder_inputs :: "nat list \<times> 'h \<times> real \<times> nat list list \<Rightarrow> nat list list" where
  "decoder_inputs st = snd (snd (snd st))"

definition loss_of :: "nat list \<times> 'h \<times> real \<times> nat list list \<Rightarrow> real" where
  "loss_of st = fst (snd (snd st))"

text \<open>\<open>optimizer\<close> stands for \<^verbatim>\<open>tape.gradient\<close> followed by \<^verbatim>\<open>apply_gradients\<close>: from
  the loss as a function of the variables and their current value to their new value.\<close>

definition train_step ::
  "('p \<Rightarrow> nat list list \<Rightarrow> 'h \<Rightarrow> 'e \<times> 'h) \<Rightarrow> ('p \<Rightarrow> nat list \<Rightarrow> 'h \<Rightarrow> 'e \<Rightarrow> real list list \<times> 'h) \<Rightarrow>
   (nat \<Rightarrow> real list \<Rightarrow> real) \<Rightarrow> (('p \<Rightarrow> real) \<Rightarrow> 'p \<Rightarrow> 'p) \<Rightarrow> translator \<Rightarrow>
   'p \<Rightarrow> nat list list \<Rightarrow> nat list list \<Rightarrow> 'h \<Rightarrow> error + real \<times> 'p" where
  "train_step encoder decoder loss_object optimizer m \<theta> inp targ enc_hidden =
     (case lookup_token (word_index (targ_lang_tokenizer m)) ''<start>'' of
        Inl e \<Rightarrow> Inl e
      | Inr start \<Rightarrow>
          (let loss = (\<lambda>v. loss_of (forward_pass encoder decoder loss_object start v inp targ enc_hidden));
               batch_loss = loss \<theta> / real (shape1 targ)
           in Inr (batch_loss, optimizer loss \<theta>)))"

subsection \<open>train\<close>

text \<open>\<^verbatim>\<open>Dataset.shuffle(BUFFER_SIZE)\<close> with the buffer as large as the data: the elements
  in the order of a random permutation \<open>perm\<close> of their indices, drawn anew at each
  iteration of the data. \<^verbatim>\<open>Dataset.batch(n, drop_remainder=True)\<close>: the full groups of
  \<open>n\<close> consecutive elements.\<close>

definition shuffle :: "nat list \<Rightarrow> 'a list \<Rightarrow> 'a list" where
  "shuffle perm xs = map ((!) xs) perm"

definition batch :: "nat \<Rightarrow> 'a list \<Rightarrow> 'a list list" where
  "batch n xs = map (\<lambda>k. take n (drop (k * n) xs)) [0..<length xs div n]"

text \<open>What \<^verbatim>\<open>enumerate(self.dataset.take(self.steps_per_epoch))\<close> iterates in one
  epoch.\<close>

definition epoch_batches :: "translator \<Rightarrow> nat list \<Rightarrow> (nat list \<times> nat list) list list" where
  "epoch_batches m perm = take (steps_per_epoch m) (batch BATCH_SIZE (shuffle perm (dataset m)))"

text \<open>The inner loop: one \<open>step\<close> (the method \<^verbatim>\<open>train_step\<close> on the input and target
  rows of the batch) per batch, an exception ending it. The result holds the variables
  and the batch losses in order.\<close>

fun run_batches ::
  "('p \<Rightarrow> nat list list \<Rightarrow> nat list list \<Rightarrow> error + real \<times> 'p) \<Rightarrow>
   (nat list \<times> nat list) list list \<Rightarrow> 'p \<times> real list \<Rightarrow> error + 'p \<times> real list" where
  "run_batches step [] st = Inr st"
| "run_batches step (b # bs) (\<theta>, losses) =
     (case step \<theta> (map fst b) (map snd b) of
        Inl e \<Rightarrow> Inl e
      | Inr (batch_loss, \<theta>') \<Rightarrow> run_batches step bs (\<theta>', losses @ [batch_loss]))"

text \<open>One epoch. \<^verbatim>\<open>total_loss / self.steps_per_epoch\<close> in the report at its end divides
  the integer 0 by 0 when there was no batch.\<close>

definition run_epoch ::
  "('p \<Rightarrow> nat list list \<Rightarrow> nat list list \<Rightarrow> error + real \<times> 'p) \<Rightarrow> translator \<Rightarrow> nat list \<Rightarrow>
   'p \<Rightarrow> error + 'p \<times> real list" where
  "run_epoch step m perm \<theta> =
     (case run_batches step (epoch_batches m perm) (\<theta>, []) of
        Inl e \<Rightarrow> Inl e
      | Inr (\<theta>', losses) \<Rightarrow>
          if steps_per_epoch m = 0 then Inl ZeroDivisionError else Inr (\<theta>', losses))"

text \<open>\<^verbatim>\<open>for epoch in range(epochs)\<close>; \<open>perms epoch\<close> is the shuffle of that epoch. The
  result holds the variables and the number of epochs completed.\<close>

fun train_from ::
  "('p \<Rightarrow> nat list list \<Rightarrow> nat list list \<Rightarrow> error + real \<times> 'p) \<Rightarrow> translator \<Rightarrow> (nat \<Rightarrow> nat list) \<Rightarrow>
   nat list \<Rightarrow> 'p \<times> nat \<Rightarrow> error + 'p \<times> nat" where
  "train_from step m perms [] st = Inr st"
| "train_from step m perms (epoch # rest) (\<theta>, done_epochs) =
     (case run_epoch step m (perms epoch) \<theta> of
        Inl e \<Rightarrow> Inl e
      | Inr (\<theta>', losses) \<Rightarrow> train_from step m perms rest (\<theta>', done_epochs + 1))"

definition train ::
  "('p \<Rightarrow> nat list list \<Rightarrow> nat list list \<Rightarrow> error + real \<times> 'p) \<Rightarrow> translator \<Rightarrow> (nat \<Rightarrow> nat list) \<Rightarrow>
   nat \<Rightarrow> 'p \<Rightarrow> error + 'p \<times> nat" where
  "train step m perms epochs \<theta> = train_from step m perms [0..<epochs] (\<theta>, 0)"

subsection \<open>evaluate\<close>

text \<open>\<^verbatim>\<open>[self.inp_lang_tokenizer.word_index[i] for i in sentence.split(' ')]\<close>: the first
  missing token raises.\<close>

fun lookup_all :: "(string \<times> nat) list \<Rightarrow> string list \<Rightarrow> error + nat list" where
  "lookup_all d [] = Inr []"
| "lookup_all d (w # ws) =
     (case lookup_token d w of
        Inl e \<Rightarrow> Inl e
      | Inr i \<Rightarrow> (case lookup_all d ws of Inl e \<Rightarrow> Inl e | Inr ids \<Rightarrow> Inr (i # ids)))"

text \<open>\<^verbatim>\<open>pad_sequences([inputs], maxlen=..., padding='post')\<close> for its one row: the library
  keeps the last \<open>maxlen\<close> entries (\<^verbatim>\<open>s[-maxlen:]\<close>, the whole row when \<open>maxlen\<close> is 0,
  which then does not fit) and fills with 0 at the end.\<close>

definition pad_to :: "nat \<Rightarrow> nat list \<Rightarrow> error + nat list" where
  "pad_to maxlen s =
     (if s = [] then Inr (replicate maxlen 0)
      else if maxlen = 0 then Inl ValueError
      else (let trunc = drop (length s - maxlen) s
            in Inr (trunc @ replicate (maxlen - length trunc) 0)))"

text \<open>\<^verbatim>\<open>tf.argmax\<close> of a vector: the first index of its greatest entry; an empty vector
  is an error.\<close>

fun argmax :: "real list \<Rightarrow> nat option" where
  "argmax [] = None"
| "argmax (x # xs) =
     (case argmax xs of
        None \<Rightarrow> Some 0
      | Some j \<Rightarrow> if x < xs ! j then Some (Suc j) else Some 0)"

text \<open>
  The loop \<^verbatim>\<open>for _ in range(self.max_length_targ)\<close>, by the number of iterations left.
  \<open>dec\<close> is the decoder on a batch of one: from the input id, the hidden state and the
  encoder output to \<^verbatim>\<open>predictions[0]\<close> and the new hidden state. The result holds the
  number of calls of the decoder, the ids the calls predicted, and either the exception
  or the string \<^verbatim>\<open>result\<close>.
\<close>

fun greedy_loop ::
  "(nat \<Rightarrow> 'h \<Rightarrow> 'e \<Rightarrow> real list \<times> 'h) \<Rightarrow> (nat \<times> string) list \<Rightarrow> 'e \<Rightarrow> nat \<Rightarrow>
   nat \<Rightarrow> 'h \<Rightarrow> string \<Rightarrow> nat \<times> nat list \<times> (error + string)" where
  "greedy_loop dec iw enc_out 0 dec_input dec_hidden result = (0, [], Inr result)"
| "greedy_loop dec iw enc_out (Suc n) dec_input dec_hidden result =
     (let (predictions, dec_hidden') = dec dec_input dec_hidden enc_out
      in case argmax predictions of
           None \<Rightarrow> (1, [], Inl InvalidArgument)
         | Some predicted_id \<Rightarrow>
             (case lookup_id iw predicted_id of
                Inl e \<Rightarrow> (1, [predicted_id], Inl e)
              | Inr word \<Rightarrow>
                  if word = ''<end>'' then (1, [predicted_id], Inr result)
                  else (let (calls, ids, r) =
                              greedy_loop dec iw enc_out n predicted_id dec_hidden'
                                (result @ word @ '' '')
                        in (Suc calls, predicted_id # ids, r))))"

text \<open>\<open>encoder\<close> is the encoder on the one padded row with the zero hidden state. An
  exception before the loop leaves no decoder call.\<close>

definition evaluate_trace ::
  "(nat list \<Rightarrow> 'e \<times> 'h) \<Rightarrow> (nat \<Rightarrow> 'h \<Rightarrow> 'e \<Rightarrow> real list \<times> 'h) \<Rightarrow> translator \<Rightarrow> string \<Rightarrow>
   nat \<times> nat list \<times> (error + string \<times> string)" where
  "evaluate_trace encoder dec m sentence0 =
     (let sentence = preprocess_sentence sentence0
      in case lookup_all (word_index (inp_lang_tokenizer m)) (split_sp sentence) of
           Inl e \<Rightarrow> (0, [], Inl e)
         | Inr inputs \<Rightarrow>
             (case pad_to (max_length_inp m) inputs of
                Inl e \<Rightarrow> (0, [], Inl e)
              | Inr inputs \<Rightarrow>
                  (let (enc_out, enc_hidden) = encoder inputs;
                       dec_hidden = enc_hidden
                   in case lookup_token (word_index (targ_lang_tokenizer m)) ''<start>'' of
                        Inl e \<Rightarrow> (0, [], Inl e)
                      | Inr dec_input \<Rightarrow>
                          (let (calls, ids, r) =
                                 greedy_loop dec (index_word (targ_lang_tokenizer m)) enc_out
                                   (max_length_targ m) dec_input dec_hidden []
                           in (calls, ids,
                               case r of Inl e \<Rightarrow> Inl e | Inr result \<Rightarrow> Inr (result, sentence))))))"

definition evaluate ::
  "(nat list \<Rightarrow> 'e \<times> 'h) \<Rightarrow> (nat \<Rightarrow> 'h \<Rightarrow> 'e \<Rightarrow> real list \<times> 'h) \<Rightarrow> translator \<Rightarrow> string \<Rightarrow>
   error + string \<times> string" where
  "evaluate encoder dec m sentence0 = snd (snd (evaluate_trace encoder dec m sentence0))"

definition decoder_calls :: "nat \<times> nat list \<times> 'r \<Rightarrow> nat" where
  "decoder_calls tr = fst tr"

definition predicted_ids :: "nat \<times> nat list \<times> 'r \<Rightarrow> nat list" where
  "predicted_ids tr = fst (snd tr)"

subsection \<open>The entry point\<close>

text \<open>
  \<^verbatim>\<open>model.train(epochs)\<close> as a step of the process. The state is the object, its
  variables and the number of epochs completed since the start; \<open>perms d\<close> gives the
  shuffles of the call that starts after \<open>d\<close> epochs.
\<close>

definition train_call ::
  "('p \<Rightarrow> nat list list \<Rightarrow> nat list list \<Rightarrow> error + real \<times> 'p) \<Rightarrow> (nat \<Rightarrow> nat \<Rightarrow> nat list) \<Rightarrow>
   nat \<Rightarrow> translator \<times> 'p \<times> nat \<Rightarrow> error + translator \<times> 'p \<times> nat" where
  "train_call step perms epochs s =
     (case s of (m, \<theta>, d) \<Rightarrow>
        (case train step m (perms d) epochs \<theta> of
           Inl e \<Rightarrow> Inl e
         | Inr (\<theta>', k) \<Rightarrow> Inr (m, \<theta>', d + k)))"

text \<open>
  The loop \<^verbatim>\<open>while True\<close>, which never ends by itself, by the number of iterations
  run: \<^verbatim>\<open>model.train(epochs)\<close>, then the request to the translator service
  (\<open>reload\<close>, which may raise).
\<close>

fun service_loop ::
  "(nat \<Rightarrow> 'm \<Rightarrow> error + 'm) \<Rightarrow> (string \<Rightarrow> error + unit) \<Rightarrow> string \<Rightarrow> nat \<Rightarrow> nat \<Rightarrow> 'm \<Rightarrow>
   error + 'm" where
  "service_loop train_method reload lang epochs 0 model = Inr model"
| "service_loop train_method reload lang epochs (Suc n) model =
     (case train_method epochs model of
        Inl e \<Rightarrow> Inl e
      | Inr model' \<Rightarrow>
          (case reload lang of
             Inl e \<Rightarrow> Inl e
           | Inr response \<Rightarrow> service_loop train_method reload lang epochs n model'))"

text \<open>
  The block under \<^verbatim>\<open>if __name__ == '__main__'\<close> with \<open>n\<close> iterations of its loop.
  \<open>argv\<close> is \<^verbatim>\<open>sys.argv\<close>; \<open>py_int\<close> is \<^verbatim>\<open>int\<close> on a string, \<open>None\<close> where it
  raises ValueError; \<open>init\<close> is the constructor \<^verbatim>\<open>TranslatorModel(lang)\<close>;
  \<open>train_method\<close> is \<^verbatim>\<open>model.train\<close>. The name \<open>epochs\<close> is bound twice, as in the
  source.
\<close>

definition main ::
  "(string \<Rightarrow> int option) \<Rightarrow> (string \<Rightarrow> error + 'm) \<Rightarrow> (nat \<Rightarrow> 'm \<Rightarrow> error + 'm) \<Rightarrow>
   (string \<Rightarrow> error + unit) \<Rightarrow> nat \<Rightarrow> string list \<Rightarrow> error + 'm" where
  "main py_int init train_method reload n argv =
     (let lang = ''eng-fra'';
          lang = (if length argv > 1 then argv ! 1 else lang)
      in case (if length argv > 2
               then (case py_int (argv ! 2) of None \<Rightarrow> Inl ValueError | Some e \<Rightarrow> Inr (Some e))
               else Inr None) of
           Inl e \<Rightarrow> Inl e
         | Inr epochs \<Rightarrow>
             (case init lang of
                Inl e \<Rightarrow> Inl e
              | Inr model \<Rightarrow>
                  (let epochs = 10 in service_loop train_method reload lang epochs n model)))"

section \<open>A small instance\<close>

text \<open>
  A corpus of two pairs and the object that \<open>load\<close> builds from it (see \<open>load_demo_lines\<close>),
  with an encoder and two decoders of no learning: \<open>demo_decoder\<close> answers the start
  marker with the id of \<open>salut\<close> and anything else with the id of the end marker;
  \<open>padding_decoder\<close> always gives its greatest logit to id 0.
\<close>

definition demo_lines :: "string list" where
  "demo_lines = [''hi'' @ [CHR 0x09] @ ''salut'', ''run'' @ [CHR 0x09] @ ''cours'']"

definition demo_model :: translator where
  "demo_model =
     \<lparr>inp_lang_tokenizer =
        \<lparr>word_index = [(''<start>'', 1), (''<end>'', 2), (''hi'', 3), (''run'', 4)],
         index_word = [(1, ''<start>''), (2, ''<end>''), (3, ''hi''), (4, ''run'')]\<rparr>,
      targ_lang_tokenizer =
        \<lparr>word_index = [(''<start>'', 1), (''<end>'', 2), (''salut'', 3), (''cours'', 4)],
         index_word = [(1, ''<start>''), (2, ''<end>''), (3, ''salut''), (4, ''cours'')]\<rparr>,
      input_tensor = [[1, 3, 2], [1, 4, 2]],
      target_tensor = [[1, 3, 2], [1, 4, 2]],
      max_length_targ = 3,
      max_length_inp = 3,
      vocab_inp_size = 5,
      vocab_tar_size = 5,
      BUFFER_SIZE = 1,
      steps_per_epoch = 0,
      dataset = [([1, 3, 2], [1, 3, 2])]\<rparr>"

definition demo_encoder :: "nat list \<Rightarrow> unit \<times> unit" where
  "demo_encoder inputs = ((), ())"

definition demo_decoder :: "nat \<Rightarrow> unit \<Rightarrow> unit \<Rightarrow> real list \<times> unit" where
  "demo_decoder dec_input h enc_out =
     (if dec_input = 1 then [0, 0, 0, 1, 0] else [0, 0, 1, 0, 0], ())"

definition padding_decoder :: "nat \<Rightarrow> unit \<Rightarrow> unit \<Rightarrow> real list \<times> unit" where
  "padding_decoder dec_input h enc_out = ([1, 0, 0, 0, 0], ())"

text \<open>
  For the entry point: a model whose training split holds exactly one batch, a training
  step that only counts its calls in the variables, and a parser of the one string
  \<open>''3''\<close>.
\<close>

definition one_batch_model :: translator where
  "one_batch_model =
     demo_model\<lparr>BUFFER_SIZE := 64, steps_per_epoch := 1,
                dataset := replicate 64 ([1, 3, 2], [1, 3, 2])\<rparr>"

definition counting_step :: "nat \<Rightarrow> nat list list \<Rightarrow> nat list list \<Rightarrow> error + real \<times> nat" where
  "counting_step \<theta> inp targ = Inr (0, \<theta> + 1)"

definition py_int_demo :: "string \<Rightarrow> int option" where
  "py_int_demo s = (if s = ''3'' then Some 3 else None)"

text \<open>
  Two corpora of five pairs that differ in their first pair only. With the permutation
  \<open>[0, 1, 2, 3, 4]\<close> the split holds that first pair out and trains on the other
  four.
\<close>

definition corpus_a :: "string list" where
  "corpus_a = (''a'' @ [CHR 0x09] @ ''y'') # replicate 4 (''b'' @ [CHR 0x09] @ ''y'')"

definition corpus_b :: "string list" where
  "corpus_b = (''c c c c c d'' @ [CHR 0x09] @ ''y'') # replicate 4 (''b'' @ [CHR 0x09] @ ''y'')"

section \<open>Teacher forcing in train_step\<close>

lemma decoder_loop_inputs:
  "decoder_inputs (decoder_loop dec lo enc_output targ ts (di, dh, l, fed)) =
     fed @ take (length ts) (di # map (column targ) ts)"
proof (induction ts arbitrary: di dh l fed)
  case Nil
  then show ?case by (simp add: decoder_inputs_def)
next
  case (Cons t ts)
  then show ?case by (simp add: split_def Let_def)
qed

lemma decoder_loop_last_input:
  "ts \<noteq> [] \<Longrightarrow>
   fst (decoder_loop dec lo enc_output targ ts (di, dh, l, fed)) = column targ (last ts)"
proof (induction ts arbitrary: di dh l fed)
  case Nil
  then show ?case by simp
next
  case (Cons t ts)
  then show ?case by (cases "ts = []") (simp_all add: split_def Let_def)
qed

text \<open>
  C1. In a training step over a target batch of width \<open>T\<close> the decoder is called
  \<open>T - 1\<close> times. Its first input is the start marker on every row; for each
  \<open>t\<close> from 1 on, the input of the call after step \<open>t\<close> is column \<open>t\<close> of the target
  batch, the true tokens, whatever the decoder predicted; and the input set by the last
  step, \<open>T - 1\<close>, is column \<open>T - 1\<close>.
\<close>

theorem teacher_forcing:
  "length (decoder_inputs (forward_pass encoder decoder loss_object start \<theta> inp targ enc_hidden))
     = shape1 targ - 1
   \<and> (\<forall>t. 1 \<le> t \<and> t < shape1 targ - 1 \<longrightarrow>
         decoder_inputs (forward_pass encoder decoder loss_object start \<theta> inp targ enc_hidden) ! t
           = column targ t)
   \<and> (2 \<le> shape1 targ \<longrightarrow>
         decoder_inputs (forward_pass encoder decoder loss_object start \<theta> inp targ enc_hidden) ! 0
           = replicate BATCH_SIZE start
       \<and> fst (forward_pass encoder decoder loss_object start \<theta> inp targ enc_hidden)
           = column targ (shape1 targ - 1))"
proof -
  let ?T = "shape1 targ"
  let ?st = "forward_pass encoder decoder loss_object start \<theta> inp targ enc_hidden"
  have eq: "decoder_inputs ?st =
      take (?T - 1) (replicate BATCH_SIZE start # map (column targ) [1..<?T])"
    by (simp add: forward_pass_def split_def Let_def decoder_loop_inputs)
  have len: "length (decoder_inputs ?st) = ?T - 1"
    by (simp add: eq)
  have mid: "decoder_inputs ?st ! t = column targ t" if "1 \<le> t" "t < ?T - 1" for t
  proof -
    from that(1) have "0 < t" by simp
    then obtain k where k: "t = Suc k" by (auto simp: gr0_conv_Suc)
    from that k show ?thesis by (simp add: eq)
  qed
  have first: "decoder_inputs ?st ! 0 = replicate BATCH_SIZE start" if "2 \<le> ?T"
    using that by (simp add: eq)
  have lst: "fst ?st = column targ (?T - 1)" if "2 \<le> ?T"
  proof -
    from that have ne: "[1..<?T] \<noteq> []" by simp
    from that have "last [1..<?T] = ?T - 1"
      by (metis ne last_upt One_nat_def upt_eq_Nil_conv not_le)
    with ne show ?thesis
      by (simp add: forward_pass_def split_def Let_def decoder_loop_last_input)
  qed
  from len mid first lst show ?thesis by blast
qed

theorem teacher_forcing_witness:
  "decoder_inputs (forward_pass (\<lambda>p i h. ((), h)) (\<lambda>p i h e. ([[1, 0], [0, 1]], h)) (\<lambda>y p. 0) 7 ()
       [[1, 2, 3], [4, 5, 6]] [[7, 4, 5, 8], [7, 6, 8, 0]] ()) ! 1 = [4, 6]
   \<and> decoder_inputs (forward_pass (\<lambda>p i h. ((), h)) (\<lambda>p i h e. ([[1, 0], [0, 1]], h)) (\<lambda>y p. 0) 7 ()
       [[1, 2, 3], [4, 5, 6]] [[7, 4, 5, 8], [7, 6, 8, 0]] ()) ! 2 = [5, 8]
   \<and> fst (forward_pass (\<lambda>p i h. ((), h)) (\<lambda>p i h e. ([[1, 0], [0, 1]], h)) (\<lambda>y p. 0) 7 ()
       [[1, 2, 3], [4, 5, 6]] [[7, 4, 5, 8], [7, 6, 8, 0]] ()) = [8, 0]"
  using teacher_forcing [of "\<lambda>p i h. ((), h)" "\<lambda>p i h e. ([[1, 0], [0, 1]], h)" "\<lambda>y p. 0" 7 "()"
       "[[1, 2, 3], [4, 5, 6]]" "[[7, 4, 5, 8], [7, 6, 8, 0]]" "()"]
  by (simp add: shape1_def column_def)

section \<open>The mask of the loss\<close>






section \<open>The attention weights\<close>







section \<open>The vocabulary of the tokenizer\<close>

lemma first_occurrence_order_snoc:
  "first_occurrence_order (xs @ [x]) =
     (if x \<in> set xs then first_occurrence_order xs else first_occurrence_order xs @ [x])"
  by (simp add: first_occurrence_order_def)

lemma set_first_occurrence_order [simp]: "set (first_occurrence_order xs) = set xs"
  by (simp add: first_occurrence_order_def)

lemma distinct_first_occurrence_order [simp]: "distinct (first_occurrence_order xs)"
  by (simp add: first_occurrence_order_def)

lemma add_count_known:
  "w \<in> set ks \<Longrightarrow> distinct ks \<Longrightarrow>
   add_count w (map (\<lambda>u. (u, f u)) ks) = map (\<lambda>u. (u, if u = w then f u + 1 else f u)) ks"
  by (induction ks) auto

lemma add_count_new:
  "w \<notin> set ks \<Longrightarrow> add_count w (map (\<lambda>u. (u, f u)) ks) = map (\<lambda>u. (u, f u)) ks @ [(w, 1)]"
  by (induction ks) auto

lemma count_list_snoc: "count_list (xs @ [x]) u = (if u = x then count_list xs u + 1 else count_list xs u)"
  by (induction xs) auto

lemma count_list_0: "x \<notin> set xs \<Longrightarrow> count_list xs x = 0"
  by (induction xs) auto

lemma foldl_add_count:
  "foldl (\<lambda>wc w. add_count w wc) [] toks =
     map (\<lambda>w. (w, count_list toks w)) (first_occurrence_order toks)"
proof (induction toks rule: rev_induct)
  case Nil
  then show ?case by (simp add: first_occurrence_order_def)
next
  case (snoc x xs)
  show ?case
  proof (cases "x \<in> set xs")
    case True
    then show ?thesis
      by (simp add: snoc first_occurrence_order_snoc add_count_known count_list_snoc)
  next
    case False
    then show ?thesis
      by (auto simp: snoc first_occurrence_order_snoc add_count_new count_list_snoc count_list_0)
  qed
qed

lemma insort_key_map:
  "insort_key f (g x) (map g xs) = map g (insort_key (\<lambda>y. f (g y)) x xs)"
  by (induction xs) auto

lemma sort_key_map: "sort_key f (map g xs) = map g (sort_key (\<lambda>y. f (g y)) xs)"
  by (induction xs) (simp_all add: insort_key_map)

lemma sorted_voc_eq:
  "sorted_voc texts =
     sort_key (\<lambda>w. - int (count_list (corpus_tokens texts) w))
       (first_occurrence_order (corpus_tokens texts))"
  by (simp add: sorted_voc_def word_counts_def foldl_add_count sort_key_map comp_def)

lemma set_sorted_voc: "set (sorted_voc texts) = set (corpus_tokens texts)"
  by (simp add: sorted_voc_eq)

lemma distinct_sorted_voc: "distinct (sorted_voc texts)"
  by (simp add: sorted_voc_eq)

lemma split_on_not_Nil [simp]: "split_on sep s \<noteq> []"
  by (induction s) (auto split: list.splits)

lemma split_on_no_sep: "w \<in> set (split_on sep s) \<Longrightarrow> sep \<notin> set w"
  by (induction s arbitrary: w) (auto split: list.splits if_splits)

lemma split_on_word: "sep \<notin> set w \<Longrightarrow> split_on sep (w @ sep # rest) = w # split_on sep rest"
  by (induction w) (auto split: list.splits)

lemma split_on_words:
  "\<forall>w\<in>set ws. sep \<notin> set w \<Longrightarrow> split_on sep (concat (map (\<lambda>w. w @ [sep]) ws)) = ws @ [[]]"
  by (induction ws) (simp_all add: split_on_word)

lemma corpus_token_no_space: "w \<in> set (corpus_tokens texts) \<Longrightarrow> CHR '' '' \<notin> set w"
  by (auto simp: corpus_tokens_def text_to_word_sequence_def split_sp_def dest: split_on_no_sep)

lemma map_swap_zip: "map (\<lambda>(w, c). (c, w)) (zip xs ys) = zip ys xs"
  by (induction xs arbitrary: ys) (auto simp: neq_Nil_conv zip_Cons1 split: list.splits)

lemma index_word_fit:
  "index_word (fit_on_texts texts) = zip [1..<length (sorted_voc texts) + 1] (sorted_voc texts)"
  by (simp only: fit_on_texts_def Let_def Tokenizer.simps map_swap_zip)

lemma index_word_no_zero: "map_of (index_word (fit_on_texts texts)) 0 = None"
  by (auto simp: index_word_fit map_of_eq_None_iff dest: set_zip_leftD)

lemma index_word_in_voc:
  "map_of (index_word (fit_on_texts texts)) i = Some w \<Longrightarrow> w \<in> set (corpus_tokens texts)"
  by (auto simp: index_word_fit set_sorted_voc [symmetric] dest!: map_of_SomeD set_zip_rightD)

section \<open>The greedy loop of evaluate\<close>

lemma greedy_loop_calls: "fst (greedy_loop dec iw enc_out n di dh r) \<le> n"
  by (induction n arbitrary: di dh r)
     (auto simp: split_def Let_def split: option.splits sum.splits)

lemma greedy_loop_result:
  "snd (snd (greedy_loop dec iw enc_out n di dh r)) = Inr res \<Longrightarrow>
   \<exists>ws. res = r @ concat (map (\<lambda>w. w @ '' '') ws)
        \<and> (\<forall>w\<in>set ws. w \<noteq> ''<end>'' \<and> (\<exists>i. map_of iw i = Some w))"
proof (induction n arbitrary: di dh r)
  case 0
  then have "res = r @ concat (map (\<lambda>w. w @ '' '') [])" by simp
  then show ?case by (metis empty_iff list.set(1))
next
  case (Suc n)
  obtain predictions dh' where d: "dec di dh enc_out = (predictions, dh')"
    by (cases "dec di dh enc_out")
  show ?case
  proof (cases "argmax predictions")
    case None
    with Suc.prems d show ?thesis by simp
  next
    case (Some pid)
    show ?thesis
    proof (cases "map_of iw pid")
      case None
      with Suc.prems d Some show ?thesis by (simp add: lookup_id_def)
    next
      case (Some word)
      show ?thesis
      proof (cases "word = ''<end>''")
        case True
        with Suc.prems d \<open>argmax predictions = Some pid\<close> Some
        have "res = r @ concat (map (\<lambda>w. w @ '' '') [])" by (simp add: lookup_id_def)
        then show ?thesis by (metis empty_iff list.set(1))
      next
        case False
        with Suc.prems d \<open>argmax predictions = Some pid\<close> Some
        have "snd (snd (greedy_loop dec iw enc_out n pid dh' (r @ word @ '' ''))) = Inr res"
          by (simp add: lookup_id_def split_def Let_def)
        from Suc.IH [OF this] obtain ws where
          ws: "res = (r @ word @ '' '') @ concat (map (\<lambda>w. w @ '' '') ws)"
              "\<forall>w\<in>set ws. w \<noteq> ''<end>'' \<and> (\<exists>i. map_of iw i = Some w)"
          by blast
        have "res = r @ concat (map (\<lambda>w. w @ '' '') (word # ws))"
          using ws(1) by simp
        moreover have "\<forall>w\<in>set (word # ws). w \<noteq> ''<end>'' \<and> (\<exists>i. map_of iw i = Some w)"
          using ws(2) False Some by auto
        ultimately show ?thesis by blast
      qed
    qed
  qed
qed

lemma greedy_loop_zero:
  "map_of iw 0 = None \<Longrightarrow> 0 \<in> set (fst (snd (greedy_loop dec iw enc_out n di dh r))) \<Longrightarrow>
   snd (snd (greedy_loop dec iw enc_out n di dh r)) = Inl (KeyErrorId 0)"
proof (induction n arbitrary: di dh r)
  case 0
  then show ?case by simp
next
  case (Suc n)
  obtain predictions dh' where d: "dec di dh enc_out = (predictions, dh')"
    by (cases "dec di dh enc_out")
  show ?case
  proof (cases "argmax predictions")
    case None
    with Suc.prems d show ?thesis by simp
  next
    case (Some pid)
    show ?thesis
    proof (cases "pid = 0")
      case True
      with Suc.prems(1) d Some show ?thesis by (simp add: lookup_id_def)
    next
      case False
      show ?thesis
      proof (cases "map_of iw pid")
        case None
        with Suc.prems d Some False show ?thesis by (simp add: lookup_id_def)
      next
        case (Some word)
        show ?thesis
        proof (cases "word = ''<end>''")
          case True
          with Suc.prems d \<open>argmax predictions = Some pid\<close> Some False show ?thesis
            by (simp add: lookup_id_def)
        next
          case w: False
          with Suc.prems(2) d \<open>argmax predictions = Some pid\<close> Some False
          have "0 \<in> set (fst (snd (greedy_loop dec iw enc_out n pid dh' (r @ word @ '' ''))))"
            by (simp add: lookup_id_def split_def Let_def)
          from Suc.IH [OF Suc.prems(1) this] d \<open>argmax predictions = Some pid\<close> Some w
          show ?thesis by (simp add: lookup_id_def split_def Let_def)
        qed
      qed
    qed
  qed
qed

lemma lookup_all_missing:
  "tok \<in> set ws \<Longrightarrow> map_of d tok = None \<Longrightarrow>
   \<exists>t\<in>set ws. map_of d t = None \<and> lookup_all d ws = Inl (KeyError t)"
proof (induction ws)
  case Nil
  then show ?case by simp
next
  case (Cons w ws)
  show ?case
  proof (cases "map_of d w")
    case None
    then show ?thesis by (auto simp: lookup_token_def)
  next
    case (Some i)
    with Cons.prems have "tok \<in> set ws" by auto
    from Cons.IH [OF this Cons.prems(2)] Some show ?thesis
      by (auto simp: lookup_token_def)
  qed
qed

section \<open>evaluate\<close>

lemma tokenize_demo_inp:
  "tokenize [''<start> hi <end>'', ''<start> run <end>''] =
     ([[1, 3, 2], [1, 4, 2]], inp_lang_tokenizer demo_model)"
  by code_simp

lemma tokenize_demo_targ:
  "tokenize [''<start> salut <end>'', ''<start> cours <end>''] =
     ([[1, 3, 2], [1, 4, 2]], targ_lang_tokenizer demo_model)"
  by code_simp

lemma load_dataset_demo:
  "load_dataset demo_lines None =
     [[''<start> hi <end>'', ''<start> run <end>''],
      [''<start> salut <end>'', ''<start> cours <end>'']]"
  by code_simp

lemma load_demo_lines: "load True demo_lines None [1, 0] = Inr demo_model"
  by (simp add: load_def load_langs_def load_dataset_demo tokenize_demo_inp tokenize_demo_targ
      train_test_split_def shape1_def BATCH_SIZE_def demo_model_def)

lemma demo_targ_tokenizer:
  "targ_lang_tokenizer demo_model = fit_on_texts [''<start> salut <end>'', ''<start> cours <end>'']"
  using tokenize_demo_targ by (simp add: tokenize_def Let_def)

text \<open>
  C3. Whatever the sentence, the encoder and the decoder are, \<open>evaluate\<close> calls the
  decoder at most \<open>max_length_targ\<close> times, whether it returns or raises; and when it
  returns, with the target vocabulary built by the tokenizer, no token of the returned
  string (its pieces between spaces) is the end marker.
\<close>

theorem evaluate_bounded_without_end_marker:
  assumes "targ_lang_tokenizer m = fit_on_texts texts"
  shows "decoder_calls (evaluate_trace encoder dec m s) \<le> max_length_targ m
       \<and> (\<forall>result sent. evaluate encoder dec m s = Inr (result, sent) \<longrightarrow>
            ''<end>'' \<notin> set (split_sp result))"
proof -
  have calls: "decoder_calls (evaluate_trace encoder dec m s) \<le> max_length_targ m"
    using greedy_loop_calls [of dec "index_word (targ_lang_tokenizer m)" _ "max_length_targ m"]
    by (auto simp: decoder_calls_def evaluate_trace_def Let_def split_def
        split: sum.splits)
  have noend: "''<end>'' \<notin> set (split_sp result)"
    if ev: "evaluate encoder dec m s = Inr (result, sent)" for result sent
  proof -
    from ev obtain enc_out di dh where
      g: "snd (snd (greedy_loop dec (index_word (targ_lang_tokenizer m)) enc_out
             (max_length_targ m) di dh [])) = Inr result"
      by (auto simp: evaluate_def evaluate_trace_def Let_def split_def split: sum.splits)
    from greedy_loop_result [OF g] obtain ws where
      ws: "result = concat (map (\<lambda>w. w @ '' '') ws)"
          "\<forall>w\<in>set ws. w \<noteq> ''<end>''
              \<and> (\<exists>i. map_of (index_word (targ_lang_tokenizer m)) i = Some w)"
      by auto
    have nosp: "\<forall>w\<in>set ws. CHR '' '' \<notin> set w"
      using ws(2) assms by (auto dest!: index_word_in_voc corpus_token_no_space)
    have "split_sp result = ws @ [[]]"
      unfolding split_sp_def ws(1) using split_on_words [OF nosp] by simp
    with ws(2) show ?thesis by auto
  qed
  from calls noend show ?thesis by blast
qed

theorem evaluate_bounded_without_end_marker_witness:
  "targ_lang_tokenizer demo_model = fit_on_texts [''<start> salut <end>'', ''<start> cours <end>'']
   \<and> decoder_calls (evaluate_trace demo_encoder demo_decoder demo_model ''Hi'') \<le> max_length_targ demo_model
   \<and> evaluate demo_encoder demo_decoder demo_model ''Hi'' = Inr (''salut '', ''<start> hi <end>'')
   \<and> ''<end>'' \<notin> set (split_sp ''salut '')"
proof -
  have ev: "evaluate demo_encoder demo_decoder demo_model ''Hi'' = Inr (''salut '', ''<start> hi <end>'')"
    by code_simp
  from evaluate_bounded_without_end_marker [OF demo_targ_tokenizer, of demo_encoder demo_decoder "''Hi''"]
    ev demo_targ_tokenizer
  show ?thesis by blast
qed

text \<open>
  C7. When some token of the preprocessed sentence (a piece between spaces) has no entry
  in the word index of the input language, \<open>evaluate\<close> raises the KeyError of such a
  token and returns nothing.
\<close>

theorem unknown_token_raises:
  assumes "tok \<in> set (split_sp (preprocess_sentence s))"
      and "map_of (word_index (inp_lang_tokenizer m)) tok = None"
  shows "\<exists>t\<in>set (split_sp (preprocess_sentence s)).
           map_of (word_index (inp_lang_tokenizer m)) t = None
         \<and> evaluate encoder dec m s = Inl (KeyError t)"
  using lookup_all_missing [OF assms]
  by (auto simp: evaluate_def evaluate_trace_def Let_def)

theorem unknown_token_raises_witness:
  "''ho'' \<in> set (split_sp (preprocess_sentence ''Ho''))
   \<and> map_of (word_index (inp_lang_tokenizer demo_model)) ''ho'' = None
   \<and> (\<exists>t\<in>set (split_sp (preprocess_sentence ''Ho'')).
         map_of (word_index (inp_lang_tokenizer demo_model)) t = None
       \<and> evaluate demo_encoder demo_decoder demo_model ''Ho'' = Inl (KeyError t))"
proof -
  have h1: "''ho'' \<in> set (split_sp (preprocess_sentence ''Ho''))"
    by code_simp
  have h2: "map_of (word_index (inp_lang_tokenizer demo_model)) ''ho'' = None"
    by code_simp
  from unknown_token_raises [OF h1 h2, of demo_encoder demo_decoder] h1 h2
  show ?thesis by blast
qed

text \<open>
  C9. With the target vocabulary built by the tokenizer, id 0 has no entry in the
  mapping from ids to words; and when some call of the decoder in \<open>evaluate\<close> has its
  greatest logit at index 0, \<open>evaluate\<close> raises the KeyError of 0 and returns nothing.
\<close>

theorem predicted_padding_id_raises:
  assumes "targ_lang_tokenizer m = fit_on_texts texts"
      and "0 \<in> set (predicted_ids (evaluate_trace encoder dec m s))"
  shows "map_of (index_word (targ_lang_tokenizer m)) 0 = None
       \<and> evaluate encoder dec m s = Inl (KeyErrorId 0)"
proof -
  have z: "map_of (index_word (targ_lang_tokenizer m)) 0 = None"
    using assms(1) by (simp add: index_word_no_zero)
  from assms(2) obtain enc_out di dh where
    tr: "evaluate_trace encoder dec m s =
           (let (calls, ids, r) = greedy_loop dec (index_word (targ_lang_tokenizer m)) enc_out
                                    (max_length_targ m) di dh []
            in (calls, ids,
                case r of Inl e \<Rightarrow> Inl e | Inr result \<Rightarrow> Inr (result, preprocess_sentence s)))"
    by (auto simp: predicted_ids_def evaluate_trace_def Let_def split_def split: sum.splits)
  with assms(2)
  have "0 \<in> set (fst (snd (greedy_loop dec (index_word (targ_lang_tokenizer m)) enc_out
                             (max_length_targ m) di dh [])))"
    by (simp add: predicted_ids_def split_def Let_def)
  from greedy_loop_zero [OF z this] tr have "evaluate encoder dec m s = Inl (KeyErrorId 0)"
    by (simp add: evaluate_def split_def Let_def)
  with z show ?thesis by simp
qed

theorem predicted_padding_id_raises_witness:
  "targ_lang_tokenizer demo_model = fit_on_texts [''<start> salut <end>'', ''<start> cours <end>'']
   \<and> 0 \<in> set (predicted_ids (evaluate_trace demo_encoder padding_decoder demo_model ''Hi''))
   \<and> map_of (index_word (targ_lang_tokenizer demo_model)) 0 = None
   \<and> evaluate demo_encoder padding_decoder demo_model ''Hi'' = Inl (KeyErrorId 0)"
proof -
  have h: "0 \<in> set (predicted_ids (evaluate_trace demo_encoder padding_decoder demo_model ''Hi''))"
    by code_simp
  from predicted_padding_id_raises [OF demo_targ_tokenizer h] h demo_targ_tokenizer
  show ?thesis by blast
qed

section \<open>The entry point\<close>

lemma train_from_done:
  "train_from step m perms es (\<theta>, k) = Inr (\<theta>', k') \<Longrightarrow> k' = k + length es"
proof (induction es arbitrary: \<theta> k)
  case Nil
  then show ?case by simp
next
  case (Cons e es)
  from Cons.prems obtain \<theta>1 losses where
    "train_from step m perms es (\<theta>1, k + 1) = Inr (\<theta>', k')"
    by (auto split: sum.splits)
  from Cons.IH [OF this] show ?case by simp
qed

lemma train_done: "train step m perms epochs \<theta> = Inr (\<theta>', k) \<Longrightarrow> k = epochs"
  by (auto simp: train_def dest: train_from_done)

lemma train_call_tuple:
  "train_call step perms epochs (m, \<theta>, d) =
     (case train step m (perms d) epochs \<theta> of
        Inl e \<Rightarrow> Inl e
      | Inr (\<theta>', k) \<Rightarrow> Inr (m, \<theta>', d + k))"
  by (simp add: train_call_def)

lemma service_loop_epochs:
  "service_loop (train_call step perms) reload lang epochs n (m, \<theta>, d) = Inr (m', \<theta>', d') \<Longrightarrow>
   d' = d + epochs * n"
proof (induction n arbitrary: m \<theta> d)
  case 0
  then show ?case by simp
next
  case (Suc n)
  show ?case
  proof (cases "train step m (perms d) epochs \<theta>")
    case (Inl e)
    with Suc.prems show ?thesis by (simp add: train_call_tuple)
  next
    case (Inr res)
    obtain \<theta>1 k where res: "res = (\<theta>1, k)" by (cases res)
    with Inr have t: "train step m (perms d) epochs \<theta> = Inr (\<theta>1, k)" by simp
    show ?thesis
    proof (cases "reload lang")
      case (Inl e)
      with Suc.prems t show ?thesis by (simp add: train_call_tuple)
    next
      case r: (Inr response)
      with Suc.prems t
      have "service_loop (train_call step perms) reload lang epochs n (m, \<theta>1, d + k) =
            Inr (m', \<theta>', d')"
        by (simp add: train_call_tuple)
      from train_done [OF t] Suc.IH [OF this] show ?thesis by simp
    qed
  qed
qed

text \<open>
  C8. Unless parsing the third argument raises ValueError (and then nothing is trained),
  the entry point runs its loop on the model of the chosen language pair with
  \<open>epochs = 10\<close>, whatever the third argument is: every call of \<open>train\<close> gets 10. With
  the method \<open>train\<close> of the model, \<open>n\<close> iterations of the loop that complete have
  completed \<open>10 * n\<close> epochs.
\<close>

theorem main_trains_ten_epochs:
  "(2 < length argv \<and> py_int (argv ! 2) = None \<longrightarrow>
      main py_int init train_method reload n argv = Inl ValueError)
   \<and> (\<not> (2 < length argv \<and> py_int (argv ! 2) = None) \<longrightarrow>
      main py_int init train_method reload n argv =
        (case init (if 1 < length argv then argv ! 1 else ''eng-fra'') of
           Inl e \<Rightarrow> Inl e
         | Inr model \<Rightarrow>
             service_loop train_method reload (if 1 < length argv then argv ! 1 else ''eng-fra'')
               10 n model))
   \<and> (\<forall>m \<theta> d m' \<theta>' d'.
         init (if 1 < length argv then argv ! 1 else ''eng-fra'') = Inr (m, \<theta>, d)
         \<and> main py_int init (train_call step perms) reload n argv = Inr (m', \<theta>', d')
         \<longrightarrow> d' = d + 10 * n)"
proof -
  let ?lang = "if 1 < length argv then argv ! 1 else ''eng-fra''"
  have a: "main py_int init train_method reload n argv = Inl ValueError"
    if "2 < length argv \<and> py_int (argv ! 2) = None"
    using that by (simp add: main_def)
  have b: "main py_int init tm reload n argv =
        (case init ?lang of
           Inl e \<Rightarrow> Inl e
         | Inr model \<Rightarrow> service_loop tm reload ?lang 10 n model)"
    if "\<not> (2 < length argv \<and> py_int (argv ! 2) = None)" for tm
    using that by (auto simp: main_def Let_def split: option.splits sum.splits)
  have c: "d' = d + 10 * n"
    if i: "init ?lang = Inr (m, \<theta>, d)"
      and r: "main py_int init (train_call step perms) reload n argv = Inr (m', \<theta>', d')"
    for m \<theta> d m' \<theta>' d'
  proof -
    have "\<not> (2 < length argv \<and> py_int (argv ! 2) = None)"
    proof
      assume "2 < length argv \<and> py_int (argv ! 2) = None"
      then have "main py_int init (train_call step perms) reload n argv = Inl ValueError"
        by (simp add: main_def)
      with r show False by simp
    qed
    from b [OF this, of "train_call step perms"] r i
    have "service_loop (train_call step perms) reload ?lang 10 n (m, \<theta>, d) = Inr (m', \<theta>', d')"
      by simp
    then show ?thesis by (rule service_loop_epochs)
  qed
  from a b [of train_method] c show ?thesis by blast
qed

lemma map_sum_snd_Inr: "map_sum id snd x = Inr (a, b) \<Longrightarrow> \<exists>m. x = Inr (m, a, b)"
  by (cases x) auto

theorem main_trains_ten_epochs_witness:
  "\<not> (2 < length [''model.py'', ''eng-fra'', ''3'']
        \<and> py_int_demo ([''model.py'', ''eng-fra'', ''3''] ! 2) = None)
   \<and> map_sum id (\<lambda>s. snd (snd s))
        (main py_int_demo (\<lambda>lang. Inr (one_batch_model, 0, 0))
           (train_call counting_step (\<lambda>d epoch. [0..<64])) (\<lambda>lang. Inr ()) 2
           [''model.py'', ''eng-fra'', ''3'']) = Inr (0 + 10 * 2)"
proof -
  let ?run = "main py_int_demo (\<lambda>lang. Inr (one_batch_model, 0, 0))
           (train_call counting_step (\<lambda>d epoch. [0..<64])) (\<lambda>lang. Inr ()) 2
           [''model.py'', ''eng-fra'', ''3'']"
  have e: "map_sum id snd ?run = Inr (20, 20)"
    by code_simp
  from map_sum_snd_Inr [OF e] obtain m' where r: "?run = Inr (m', 20, 20)"
    by blast
  have p: "\<not> (2 < length [''model.py'', ''eng-fra'', ''3'']
        \<and> py_int_demo ([''model.py'', ''eng-fra'', ''3''] ! 2) = None)"
    by (simp add: py_int_demo_def)
  note t = main_trains_ten_epochs [of "[''model.py'', ''eng-fra'', ''3'']" py_int_demo
      "\<lambda>lang. Inr (one_batch_model, 0, 0)"
      "train_call counting_step (\<lambda>d epoch. [0..<64])" "\<lambda>lang. Inr ()" 2
      counting_step "\<lambda>d epoch. [0..<64]"]
  note c = t [THEN conjunct2, THEN conjunct2]
  from c r have d: "(20::nat) = 0 + 10 * 2" by blast
  have "map_sum id (\<lambda>s. snd (snd s)) ?run = Inr 20"
    by (simp only: r map_sum.simps snd_conv)
  with d have "map_sum id (\<lambda>s. snd (snd s)) ?run = Inr (0 + 10 * 2)"
    by (simp only:)
  with p show ?thesis by (rule conjI)
qed

section \<open>The split and the batches\<close>

lemma length_zip_star_column: "c \<in> set (zip_star rows) \<Longrightarrow> length c = length rows"
  by (auto simp: zip_star_def split: if_splits)

lemma load_dataset_columns:
  "c \<in> set (load_dataset lines num_examples) \<Longrightarrow> length c = loaded_pairs lines num_examples"
  by (auto simp: load_dataset_def loaded_pairs_def Let_def dest!: length_zip_star_column)

lemma length_tokenize: "length (fst (tokenize lang)) = length lang"
  by (simp add: tokenize_def pad_sequences_def texts_to_sequences_def Let_def)

lemma split_arith: "(N::nat) - (N + 4) div 5 = 4 * N div 5"
  by arith

lemma length_batch: "length (batch n xs) = length xs div n"
  by (simp add: batch_def)

lemma batch_member:
  assumes "b \<in> set (batch n xs)"
  shows "length b = n \<and> set b \<subseteq> set xs"
proof -
  from assms obtain k where k: "k < length xs div n" "b = take n (drop (k * n) xs)"
    by (auto simp: batch_def)
  have n: "0 < n" using k(1) by (cases n) auto
  have "(k + 1) * n \<le> length xs div n * n"
    using k(1) by (intro mult_le_mono1) simp
  also have "\<dots> \<le> length xs" by simp
  finally have "k * n + n \<le> length xs" by (simp add: algebra_simps)
  then have "length b = n" using k(2) by simp
  moreover have "set b \<subseteq> set xs"
    using k(2) by (metis set_take_subset set_drop_subset subset_trans)
  ultimately show ?thesis by blast
qed

lemma set_shuffle: "set perm \<subseteq> {..<length xs} \<Longrightarrow> set (shuffle perm xs) \<subseteq> set xs"
  by (auto simp: shuffle_def)

lemma length_shuffle: "length (shuffle perm xs) = length perm"
  by (simp add: shuffle_def)

lemma run_batches_losses:
  "run_batches step bs (\<theta>, losses) = Inr (\<theta>', losses') \<Longrightarrow>
   length losses' = length losses + length bs"
proof (induction bs arbitrary: \<theta> losses)
  case Nil
  then show ?case by simp
next
  case (Cons b bs)
  from Cons.prems obtain \<theta>1 l where
    "run_batches step bs (\<theta>1, losses @ [l]) = Inr (\<theta>', losses')"
    by (auto split: sum.splits)
  from Cons.IH [OF this] show ?case by simp
qed

lemma load_langs_fields:
  assumes "load_langs perm inp_lang targ_lang = Inr m"
  shows "input_tensor m = fst (tokenize inp_lang)"
    and "target_tensor m = fst (tokenize targ_lang)"
    and "inp_lang_tokenizer m = snd (tokenize inp_lang)"
    and "targ_lang_tokenizer m = snd (tokenize targ_lang)"
    and "dataset m =
           zip (map ((!) (input_tensor m))
                  (take (length inp_lang - (length inp_lang + 4) div 5)
                     (drop ((length inp_lang + 4) div 5) perm)))
               (map ((!) (target_tensor m))
                  (take (length inp_lang - (length inp_lang + 4) div 5)
                     (drop ((length inp_lang + 4) div 5) perm)))"
    and "steps_per_epoch m = length (dataset m) div BATCH_SIZE"
    and "vocab_inp_size m = length (word_index (inp_lang_tokenizer m)) + 1"
    and "max_length_inp m = shape1 (input_tensor m)"
  using assms
  by (auto simp: load_langs_def split_def Let_def train_test_split_def length_tokenize
      split: if_splits)

lemma load_cases:
  assumes "load eng_first lines num_examples perm = Inr m"
  obtains inp_lang targ_lang where
    "length inp_lang = loaded_pairs lines num_examples"
    "length targ_lang = loaded_pairs lines num_examples"
    "load_langs perm inp_lang targ_lang = Inr m"
proof -
  from assms obtain c1 c2 where cols: "load_dataset lines num_examples = [c1, c2]"
    by (cases "load_dataset lines num_examples" rule: list.exhaust)
       (auto simp: load_def split: list.splits)
  have l: "length c1 = loaded_pairs lines num_examples" "length c2 = loaded_pairs lines num_examples"
    using load_dataset_columns [of _ lines num_examples] cols by simp_all
  from assms cols have "load_langs perm (if eng_first then c1 else c2) (if eng_first then c2 else c1) = Inr m"
    by (simp add: load_def split: if_splits)
  with l show thesis by (intro that [of "if eng_first then c1 else c2" "if eng_first then c2 else c1"]) simp_all
qed


lemma perm_distinct:
  assumes "length perm = N" "set perm = {..<N}"
  shows "distinct perm"
  using assms by (metis card_lessThan card_distinct)

lemma take_drop_disjoint:
  "distinct xs \<Longrightarrow> set (take k (drop n xs)) \<inter> set (take n xs) = {}"
proof -
  assume d: "distinct xs"
  have "set (take n xs) \<inter> set (drop n xs) = {}"
    using d by (metis append_take_drop_id distinct_append)
  moreover have "set (take k (drop n xs)) \<subseteq> set (drop n xs)"
    by (rule set_take_subset)
  ultimately show ?thesis by blast
qed

text \<open>
  C10, as amended. Let \<open>N\<close> be the number of loaded pairs, \<open>perm\<close> the permutation of
  the split and \<open>shuffle_perm\<close> the permutation of an epoch's shuffle. The training data
  are the \<open>4 * N div 5\<close> tokenized pairs at the training indices of \<open>perm\<close>, none of
  which is a held-out index; an epoch iterates \<open>4 * N div 5 div 64\<close> batches, each of
  64 pairs of the training data, and makes as many training steps when it completes;
  with fewer than 64 training pairs it iterates no batch (and its report then divides
  0 by 0). Nothing is said here about the vocabularies and the padded width, which are
  computed from all \<open>N\<close> pairs before the split.
\<close>

theorem training_split_and_batches:
  assumes ld: "load eng_first lines num_examples perm = Inr m"
      and pl: "length perm = loaded_pairs lines num_examples"
      and ps: "set perm = {..<loaded_pairs lines num_examples}"
      and sl: "length shuffle_perm = length (dataset m)"
      and ss: "set shuffle_perm = {..<length (dataset m)}"
  shows "length (dataset m) = 4 * loaded_pairs lines num_examples div 5
       \<and> dataset m = map (\<lambda>i. (input_tensor m ! i, target_tensor m ! i))
                         (take (4 * loaded_pairs lines num_examples div 5)
                            (drop ((loaded_pairs lines num_examples + 4) div 5) perm))
       \<and> set (take (4 * loaded_pairs lines num_examples div 5)
                 (drop ((loaded_pairs lines num_examples + 4) div 5) perm))
           \<inter> set (take ((loaded_pairs lines num_examples + 4) div 5) perm) = {}
       \<and> length (epoch_batches m shuffle_perm) = 4 * loaded_pairs lines num_examples div 5 div 64
       \<and> (\<forall>b\<in>set (epoch_batches m shuffle_perm). length b = 64 \<and> set b \<subseteq> set (dataset m))
       \<and> (\<forall>\<theta> \<theta>' losses. run_epoch step m shuffle_perm \<theta> = Inr (\<theta>', losses) \<longrightarrow>
             length losses = 4 * loaded_pairs lines num_examples div 5 div 64)
       \<and> (4 * loaded_pairs lines num_examples div 5 < 64 \<longrightarrow>
             epoch_batches m shuffle_perm = []
           \<and> (\<forall>\<theta>. run_epoch step m shuffle_perm \<theta> = Inl ZeroDivisionError))"
proof -
  let ?N = "loaded_pairs lines num_examples"
  let ?tr = "take (4 * ?N div 5) (drop ((?N + 4) div 5) perm)"
  from load_cases [OF ld] obtain inp_lang targ_lang where
    li: "length inp_lang = ?N" and lg: "load_langs perm inp_lang targ_lang = Inr m"
    by blast
  note f = load_langs_fields [OF lg]
  have ds: "dataset m = zip (map ((!) (input_tensor m)) ?tr) (map ((!) (target_tensor m)) ?tr)"
    using f(5) by (simp add: li split_arith)
  have ltr: "length ?tr = 4 * ?N div 5"
    using pl by (simp add: split_arith [symmetric])
  have "length (dataset m) = length ?tr"
    by (simp add: ds)
  with ltr have c1: "length (dataset m) = 4 * ?N div 5"
    by (simp only:)
  have c2: "dataset m = map (\<lambda>i. (input_tensor m ! i, target_tensor m ! i)) ?tr"
    by (simp add: ds zip_map_map zip_same_conv_map)
  have c3: "set ?tr \<inter> set (take ((?N + 4) div 5) perm) = {}"
    using perm_distinct [OF pl ps] by (rule take_drop_disjoint)
  have st: "steps_per_epoch m = 4 * ?N div 5 div 64"
    using f(6) by (simp add: c1 BATCH_SIZE_def)
  have lb: "length (batch BATCH_SIZE (shuffle shuffle_perm (dataset m))) = 4 * ?N div 5 div 64"
    by (simp add: length_batch length_shuffle sl c1 BATCH_SIZE_def)
  have c4: "length (epoch_batches m shuffle_perm) = 4 * ?N div 5 div 64"
    by (simp add: epoch_batches_def lb st)
  have c5: "length b = 64 \<and> set b \<subseteq> set (dataset m)"
    if "b \<in> set (epoch_batches m shuffle_perm)" for b
  proof -
    from that have "b \<in> set (batch BATCH_SIZE (shuffle shuffle_perm (dataset m)))"
      by (auto simp: epoch_batches_def dest: in_set_takeD)
    from batch_member [OF this] set_shuffle [of shuffle_perm "dataset m"] ss
    show ?thesis by (auto simp: BATCH_SIZE_def)
  qed
  have c6: "length losses = 4 * ?N div 5 div 64"
    if "run_epoch step m shuffle_perm \<theta> = Inr (\<theta>', losses)" for \<theta> \<theta>' losses
  proof -
    from that have "run_batches step (epoch_batches m shuffle_perm) (\<theta>, []) = Inr (\<theta>', losses)"
      by (auto simp: run_epoch_def split: sum.splits if_splits)
    from run_batches_losses [OF this] show ?thesis by (simp add: c4)
  qed
  have c7: "epoch_batches m shuffle_perm = [] \<and> (\<forall>\<theta>. run_epoch step m shuffle_perm \<theta> = Inl ZeroDivisionError)"
    if "4 * ?N div 5 < 64"
  proof -
    from that have z: "steps_per_epoch m = 0" by (simp add: st)
    then have e: "epoch_batches m shuffle_perm = []" by (simp add: epoch_batches_def)
    with z show ?thesis by (simp add: run_epoch_def)
  qed
  from c1 c2 c3 c4 c5 c6 c7 show ?thesis by blast
qed

theorem training_split_and_batches_witness:
  "load True demo_lines None [1, 0] = Inr demo_model
   \<and> length [1, 0 :: nat] = loaded_pairs demo_lines None
   \<and> set [1, 0 :: nat] = {..<loaded_pairs demo_lines None}
   \<and> length [0 :: nat] = length (dataset demo_model)
   \<and> set [0 :: nat] = {..<length (dataset demo_model)}
   \<and> length (dataset demo_model) = 4 * loaded_pairs demo_lines None div 5
   \<and> dataset demo_model = [(input_tensor demo_model ! 0, target_tensor demo_model ! 0)]
   \<and> epoch_batches demo_model [0] = []
   \<and> run_epoch counting_step demo_model [0] 0 = Inl ZeroDivisionError"
proof -
  have n: "loaded_pairs demo_lines None = 2"
    by (simp add: loaded_pairs_def demo_lines_def)
  have d: "length (dataset demo_model) = 1"
    by (simp add: demo_model_def)
  have h2: "length [1, 0 :: nat] = loaded_pairs demo_lines None"
    by (simp add: n)
  have h3: "set [1, 0 :: nat] = {..<loaded_pairs demo_lines None}"
    by (auto simp: n)
  have h4: "length [0 :: nat] = length (dataset demo_model)"
    by (simp add: d)
  have h5: "set [0 :: nat] = {..<length (dataset demo_model)}"
    by (auto simp: d)
  from training_split_and_batches [OF load_demo_lines h2 h3 h4 h5, of counting_step]
  have "length (dataset demo_model) = 4 * loaded_pairs demo_lines None div 5"
    and "dataset demo_model = map (\<lambda>i. (input_tensor demo_model ! i, target_tensor demo_model ! i))
            (take (4 * loaded_pairs demo_lines None div 5)
               (drop ((loaded_pairs demo_lines None + 4) div 5) [1, 0]))"
    and "4 * loaded_pairs demo_lines None div 5 < 64 \<longrightarrow>
             epoch_batches demo_model [0] = []
           \<and> (\<forall>\<theta>. run_epoch counting_step demo_model [0] \<theta> = Inl ZeroDivisionError)"
    by blast+
  then show ?thesis
    using load_demo_lines h2 h3 h4 h5 by (simp add: n)
qed

lemma load_dataset_a:
  "load_dataset corpus_a None =
     [[''<start> a <end>'', ''<start> b <end>'', ''<start> b <end>'', ''<start> b <end>'',
       ''<start> b <end>''],
      [''<start> y <end>'', ''<start> y <end>'', ''<start> y <end>'', ''<start> y <end>'',
       ''<start> y <end>'']]"
  by code_simp

lemma load_dataset_b:
  "load_dataset corpus_b None =
     [[''<start> c c c c c d <end>'', ''<start> b <end>'', ''<start> b <end>'',
       ''<start> b <end>'', ''<start> b <end>''],
      [''<start> y <end>'', ''<start> y <end>'', ''<start> y <end>'', ''<start> y <end>'',
       ''<start> y <end>'']]"
  by code_simp

lemma tokenize_a:
  "tokenize [''<start> a <end>'', ''<start> b <end>'', ''<start> b <end>'', ''<start> b <end>'',
       ''<start> b <end>''] =
     ([[1, 4, 2], [1, 3, 2], [1, 3, 2], [1, 3, 2], [1, 3, 2]],
      \<lparr>word_index = [(''<start>'', 1), (''<end>'', 2), (''b'', 3), (''a'', 4)],
       index_word = [(1, ''<start>''), (2, ''<end>''), (3, ''b''), (4, ''a'')]\<rparr>)"
  by code_simp

lemma tokenize_b:
  "tokenize [''<start> c c c c c d <end>'', ''<start> b <end>'', ''<start> b <end>'',
       ''<start> b <end>'', ''<start> b <end>''] =
     ([[1, 2, 2, 2, 2, 2, 5, 3], [1, 4, 3, 0, 0, 0, 0, 0], [1, 4, 3, 0, 0, 0, 0, 0],
       [1, 4, 3, 0, 0, 0, 0, 0], [1, 4, 3, 0, 0, 0, 0, 0]],
      \<lparr>word_index = [(''<start>'', 1), (''c'', 2), (''<end>'', 3), (''b'', 4), (''d'', 5)],
       index_word = [(1, ''<start>''), (2, ''c''), (3, ''<end>''), (4, ''b''), (5, ''d'')]\<rparr>)"
  by code_simp

lemma tokenize_y:
  "tokenize [''<start> y <end>'', ''<start> y <end>'', ''<start> y <end>'', ''<start> y <end>'',
       ''<start> y <end>''] =
     ([[1, 2, 3], [1, 2, 3], [1, 2, 3], [1, 2, 3], [1, 2, 3]],
      \<lparr>word_index = [(''<start>'', 1), (''y'', 2), (''<end>'', 3)],
       index_word = [(1, ''<start>''), (2, ''y''), (3, ''<end>'')]\<rparr>)"
  by code_simp

text \<open>
  C10 as stated fails: the held-out pair takes part in what training is given. The two
  corpora below differ only in their first pair, which the split with the permutation
  \<open>[0, 1, 2, 3, 4]\<close> holds out; the four training pairs are the same sentences in
  both. Yet the training data differ (other token ids, another padded width), and so
  does the vocabulary size that the encoder's embedding is built with.
\<close>

theorem held_out_pair_changes_training_data:
  "drop 1 corpus_a = drop 1 corpus_b
   \<and> map_sum id dataset (load True corpus_a None [0, 1, 2, 3, 4]) =
       Inr [([1, 3, 2], [1, 2, 3]), ([1, 3, 2], [1, 2, 3]), ([1, 3, 2], [1, 2, 3]),
            ([1, 3, 2], [1, 2, 3])]
   \<and> map_sum id dataset (load True corpus_b None [0, 1, 2, 3, 4]) =
       Inr [([1, 4, 3, 0, 0, 0, 0, 0], [1, 2, 3]), ([1, 4, 3, 0, 0, 0, 0, 0], [1, 2, 3]),
            ([1, 4, 3, 0, 0, 0, 0, 0], [1, 2, 3]), ([1, 4, 3, 0, 0, 0, 0, 0], [1, 2, 3])]
   \<and> map_sum id vocab_inp_size (load True corpus_a None [0, 1, 2, 3, 4]) = Inr 5
   \<and> map_sum id vocab_inp_size (load True corpus_b None [0, 1, 2, 3, 4]) = Inr 6"
proof -
  have 1: "drop 1 corpus_a = drop 1 corpus_b"
    by (simp add: corpus_a_def corpus_b_def)
  have 2: "map_sum id dataset (load True corpus_a None [0, 1, 2, 3, 4]) =
       Inr [([1, 3, 2], [1, 2, 3]), ([1, 3, 2], [1, 2, 3]), ([1, 3, 2], [1, 2, 3]),
            ([1, 3, 2], [1, 2, 3])]"
    by (simp add: load_def load_dataset_a load_langs_def tokenize_a tokenize_y train_test_split_def Let_def)
  have 3: "map_sum id dataset (load True corpus_b None [0, 1, 2, 3, 4]) =
       Inr [([1, 4, 3, 0, 0, 0, 0, 0], [1, 2, 3]), ([1, 4, 3, 0, 0, 0, 0, 0], [1, 2, 3]),
            ([1, 4, 3, 0, 0, 0, 0, 0], [1, 2, 3]), ([1, 4, 3, 0, 0, 0, 0, 0], [1, 2, 3])]"
    by (simp add: load_def load_dataset_b load_langs_def tokenize_b tokenize_y train_test_split_def Let_def)
  have 4: "map_sum id vocab_inp_size (load True corpus_a None [0, 1, 2, 3, 4]) = Inr 5"
    by (simp add: load_def load_dataset_a load_langs_def tokenize_a tokenize_y train_test_split_def Let_def)
  have 5: "map_sum id vocab_inp_size (load True corpus_b None [0, 1, 2, 3, 4]) = Inr 6"
    by (simp add: load_def load_dataset_b load_langs_def tokenize_b tokenize_y train_test_split_def Let_def)
  from 1 2 3 4 5 show ?thesis by blast
qed

section \<open>The numbering of the vocabulary\<close>

lemma word_index_fit:
  "word_index (fit_on_texts texts) = zip (sorted_voc texts) [1..<length (sorted_voc texts) + 1]"
  by (simp add: fit_on_texts_def Let_def)

lemma word_index_tokenize: "word_index (snd (tokenize lang)) = word_index (fit_on_texts lang)"
  by (simp add: tokenize_def Let_def)

lemma sorted_voc_descending:
  "sorted_wrt (\<lambda>u v. count_list (corpus_tokens texts) v \<le> count_list (corpus_tokens texts) u)
     (sorted_voc texts)"
proof -
  have "sorted (map (\<lambda>w. - int (count_list (corpus_tokens texts) w)) (sorted_voc texts))"
    unfolding sorted_voc_eq by (rule sorted_sort_key)
  then show ?thesis by (simp add: sorted_map)
qed

lemma sorted_voc_stable:
  "filter (\<lambda>w. count_list (corpus_tokens texts) w = k) (sorted_voc texts) =
   filter (\<lambda>w. count_list (corpus_tokens texts) w = k) (first_occurrence_order (corpus_tokens texts))"
proof -
  have "filter (\<lambda>w. - int (count_list (corpus_tokens texts) w) = - int k) (sorted_voc texts) =
        filter (\<lambda>w. - int (count_list (corpus_tokens texts) w) = - int k)
          (first_occurrence_order (corpus_tokens texts))"
    unfolding sorted_voc_eq by (rule sort_key_stable)
  then show ?thesis by simp
qed

text \<open>
  C4, as amended. The word index of \<open>tokenize\<close> numbers the distinct words of the
  corpus 1, 2, ... in the order of its list, and never uses 0. That order is by
  decreasing number of occurrences in the corpus; the words with the same number of
  occurrences \<open>k\<close> keep the order of their first occurrences.
\<close>

theorem tokenize_numbers_by_frequency:
  "map snd (word_index (snd (tokenize lang))) = [1..<length (word_index (snd (tokenize lang))) + 1]
   \<and> distinct (map fst (word_index (snd (tokenize lang))))
   \<and> set (map fst (word_index (snd (tokenize lang)))) = set (corpus_tokens lang)
   \<and> sorted_wrt (\<lambda>u v. count_list (corpus_tokens lang) v \<le> count_list (corpus_tokens lang) u)
        (map fst (word_index (snd (tokenize lang))))
   \<and> (\<forall>k. filter (\<lambda>w. count_list (corpus_tokens lang) w = k) (map fst (word_index (snd (tokenize lang))))
          = filter (\<lambda>w. count_list (corpus_tokens lang) w = k) (first_occurrence_order (corpus_tokens lang)))
   \<and> 0 \<notin> snd ` set (word_index (snd (tokenize lang)))"
proof -
  let ?wi = "word_index (snd (tokenize lang))"
  have wi: "?wi = zip (sorted_voc lang) [1..<length (sorted_voc lang) + 1]"
    by (simp add: word_index_tokenize word_index_fit)
  have f: "map fst ?wi = sorted_voc lang"
    unfolding wi by (rule map_fst_zip) (simp del: upt_Suc)
  have l: "length ?wi = length (sorted_voc lang)"
    unfolding wi by (simp del: upt_Suc)
  have s: "map snd ?wi = [1..<length ?wi + 1]"
    unfolding l unfolding wi by (rule map_snd_zip) (simp del: upt_Suc)
  have z: "0 \<notin> snd ` set ?wi"
  proof -
    have "snd ` set ?wi = set (map snd ?wi)" by simp
    also have "\<dots> = set [1..<length ?wi + 1]" by (simp only: s [symmetric])
    finally show ?thesis by (simp del: upt_Suc)
  qed
  from s z show ?thesis
    unfolding f
    using distinct_sorted_voc [of lang] set_sorted_voc [of lang] sorted_voc_descending [of lang]
      sorted_voc_stable [of lang]
    by blast
qed

theorem tokenize_numbers_by_frequency_witness:
  "map snd (word_index (snd (tokenize [''<start> a <end>'', ''<start> b <end>''])))
     = [1..<length (word_index (snd (tokenize [''<start> a <end>'', ''<start> b <end>'']))) + 1]
   \<and> map fst (word_index (snd (tokenize [''<start> a <end>'', ''<start> b <end>''])))
     = [''<start>'', ''<end>'', ''a'', ''b'']
   \<and> filter (\<lambda>w. count_list (corpus_tokens [''<start> a <end>'', ''<start> b <end>'']) w = 1)
        (map fst (word_index (snd (tokenize [''<start> a <end>'', ''<start> b <end>'']))))
     = filter (\<lambda>w. count_list (corpus_tokens [''<start> a <end>'', ''<start> b <end>'']) w = 1)
        (first_occurrence_order (corpus_tokens [''<start> a <end>'', ''<start> b <end>'']))"
proof -
  have e: "map fst (word_index (snd (tokenize [''<start> a <end>'', ''<start> b <end>''])))
     = [''<start>'', ''<end>'', ''a'', ''b'']"
    by code_simp
  from tokenize_numbers_by_frequency [of "[''<start> a <end>'', ''<start> b <end>'']"] e
  show ?thesis by blast
qed

text \<open>
  C4 as stated fails on a corpus of two sentences: both markers occur twice, every
  other word once, so the end marker is numbered 2 although the word \<open>a\<close> occurs
  before it.
\<close>

theorem first_occurrence_numbering_fails:
  "word_index (snd (tokenize [preprocess_sentence ''a'', preprocess_sentence ''b''])) =
     [(''<start>'', 1), (''<end>'', 2), (''a'', 3), (''b'', 4)]
   \<and> spec_word_index [preprocess_sentence ''a'', preprocess_sentence ''b''] =
     [(''<start>'', 1), (''a'', 2), (''<end>'', 3), (''b'', 4)]
   \<and> word_index (snd (tokenize [preprocess_sentence ''a'', preprocess_sentence ''b'']))
     \<noteq> spec_word_index [preprocess_sentence ''a'', preprocess_sentence ''b'']"
  by code_simp

section \<open>preprocess_sentence applied twice\<close>

lemma code_point_simps:
  "code_point (CHR '' '') = 32" "code_point (CHR ''?'') = 63" "code_point (CHR ''.'') = 46"
  "code_point (CHR ''!'') = 33" "code_point (CHR '','') = 44"
  by (simp_all add: code_point_def)

lemma is_punct_code: "is_punct c \<Longrightarrow> code_point c \<in> {63, 46, 33, 44, 191}"
  by (auto simp: is_punct_def code_point_simps)

lemma not_kept_space [simp]: "not_kept (CHR '' '')"
  by (simp add: not_kept_def is_letter_def is_punct_def code_point_simps)

lemma punct_kept: "is_punct c \<Longrightarrow> \<not> not_kept c"
  by (simp add: not_kept_def)

lemma not_punct_space [simp]: "\<not> is_punct (CHR '' '')"
  by (simp add: is_punct_def code_point_simps)

lemma quote_or_space_not_kept: "quote_or_space c \<Longrightarrow> not_kept c"
  by (auto simp: quote_or_space_def not_kept_def is_letter_def Let_def code_point_simps
      dest: is_punct_code)

lemma isspace_not_kept: "isspace c \<Longrightarrow> not_kept c"
  by (auto simp: isspace_def not_kept_def is_letter_def Let_def dest: is_punct_code)

lemma sub_runs_from_absorb:
  assumes "\<And>c. Q c \<Longrightarrow> N c" and "N (CHR '' '')"
  shows "(f1 \<longrightarrow> f2) \<Longrightarrow> sub_runs_from N f2 (sub_runs_from Q f1 w) = sub_runs_from N f2 w"
proof (induction w arbitrary: f1 f2)
  case Nil
  then show ?case by simp
next
  case (Cons c cs)
  show ?case
  proof (cases "Q c")
    case True
    then have "N c" by (rule assms(1))
    with True Cons.prems Cons.IH [of True True] assms(2) show ?thesis by auto
  next
    case False
    show ?thesis
    proof (cases "N c")
      case True
      with False Cons.IH [of False True] show ?thesis by simp
    next
      case n: False
      with False Cons.IH [of False False] show ?thesis by simp
    qed
  qed
qed

lemma sentence_body_spaced:
  "sentence_body w0 = strip (spaced False (unicode_to_ascii (strip (lower w0))))"
  by (simp add: sentence_body_def spaced_def sub_runs_def Let_def
      sub_runs_from_absorb [of quote_or_space not_kept, OF quote_or_space_not_kept])

lemma spaced_Nil [simp]: "spaced f [] = []"
  by (simp add: spaced_def pad_punct_def)

lemma spaced_Cons:
  "spaced f (c # cs) =
     (if is_punct c then (if f then [] else '' '') @ c # CHR '' '' # spaced True cs
      else if not_kept c then (if f then [] else '' '') @ spaced True cs
      else c # spaced False cs)"
  by (auto simp: spaced_def pad_punct_def punct_kept)

lemma spaced_idem: "spaced f (spaced f v) = spaced f v"
proof (induction v arbitrary: f)
  case Nil
  then show ?case by simp
next
  case (Cons c cs)
  show ?case
    by (cases f) (auto simp: spaced_Cons Cons.IH punct_kept)
qed


lemma kept_not_space: "\<not> not_kept c \<Longrightarrow> \<not> isspace c"
  using isspace_not_kept by blast

lemma spaced_True_head: "spaced True x = [] \<or> \<not> isspace (hd (spaced True x))"
proof (induction x)
  case Nil
  then show ?case by simp
next
  case (Cons c cs)
  then show ?case
    by (auto simp: spaced_Cons dest: punct_kept kept_not_space)
qed

lemma spaced_False_True:
  "spaced False x = spaced True x \<or> spaced False x = CHR '' '' # spaced True x"
  by (cases x) (auto simp: spaced_Cons)

lemma isspace_space [simp]: "isspace (CHR '' '')"
  by (simp add: isspace_def code_point_simps)

lemma dropWhile_head: "xs = [] \<or> \<not> P (hd xs) \<Longrightarrow> dropWhile P xs = xs"
  by (cases xs) auto

lemma lstrip_spaced: "dropWhile isspace (spaced f y) = spaced True y"
proof -
  have t: "dropWhile isspace (spaced True y) = spaced True y"
    using spaced_True_head [of y] by (rule dropWhile_head)
  show ?thesis
  proof (cases f)
    case True
    with t show ?thesis by simp
  next
    case False
    with spaced_False_True [of y] t show ?thesis by auto
  qed
qed

lemma spaced_lstrip: "spaced True (dropWhile isspace y) = spaced True y"
  by (induction y) (auto simp: spaced_Cons dest: isspace_not_kept punct_kept)

lemma spaced_spaces:
  "\<forall>c\<in>set r. isspace c \<Longrightarrow> spaced f r = (if f \<or> r = [] then [] else '' '')"
proof (induction r arbitrary: f)
  case Nil
  then show ?case by simp
next
  case (Cons c r)
  then have "not_kept c" "\<not> is_punct c"
    using isspace_not_kept punct_kept by auto
  with Cons show ?case by (simp add: spaced_Cons)
qed

lemma spaced_append_spaces:
  "\<forall>c\<in>set r. isspace c \<Longrightarrow>
   \<exists>e. (e = [] \<or> e = '' '') \<and> spaced f (a @ r) = spaced f a @ e"
proof (induction a arbitrary: f)
  case Nil
  then show ?case by (simp add: spaced_spaces)
next
  case (Cons c a)
  from Cons.IH [OF Cons.prems, of True] obtain e1 where
    e1: "e1 = [] \<or> e1 = '' ''" "spaced True (a @ r) = spaced True a @ e1" by blast
  from Cons.IH [OF Cons.prems, of False] obtain e2 where
    e2: "e2 = [] \<or> e2 = '' ''" "spaced False (a @ r) = spaced False a @ e2" by blast
  show ?case
  proof (cases "is_punct c \<or> not_kept c")
    case True
    with e1 show ?thesis by (auto simp: spaced_Cons)
  next
    case False
    with e2 show ?thesis by (auto simp: spaced_Cons)
  qed
qed

lemma rstrip_append_spaces:
  "\<forall>c\<in>set e. isspace c \<Longrightarrow>
   rev (dropWhile isspace (rev (x @ e))) = rev (dropWhile isspace (rev x))"
proof -
  assume "\<forall>c\<in>set e. isspace c"
  then have "dropWhile isspace (rev e @ rev x) = dropWhile isspace (rev x)"
    by (intro dropWhile_append2) simp
  then show ?thesis by simp
qed

lemma rstrip_decompose:
  "\<exists>r. (\<forall>c\<in>set r. isspace c) \<and> y = rev (dropWhile isspace (rev y)) @ r"
proof -
  have "rev y = takeWhile isspace (rev y) @ dropWhile isspace (rev y)" by simp
  then have "y = rev (dropWhile isspace (rev y)) @ rev (takeWhile isspace (rev y))"
    by (metis rev_append rev_rev_ident)
  moreover have "\<forall>c\<in>set (rev (takeWhile isspace (rev y))). isspace c"
    by (auto dest: set_takeWhileD)
  ultimately show ?thesis by blast
qed

lemma rstrip_spaced:
  "rev (dropWhile isspace (rev (spaced f (rev (dropWhile isspace (rev y)))))) =
   rev (dropWhile isspace (rev (spaced f y)))"
proof -
  from rstrip_decompose [of y] obtain r where
    r: "\<forall>c\<in>set r. isspace c" "y = rev (dropWhile isspace (rev y)) @ r" by blast
  from spaced_append_spaces [OF r(1), of f "rev (dropWhile isspace (rev y))"] r(2) obtain e where
    e: "e = [] \<or> e = '' ''" "spaced f y = spaced f (rev (dropWhile isspace (rev y))) @ e"
    by auto
  from e(1) have "\<forall>c\<in>set e. isspace c" by auto
  from rstrip_append_spaces [OF this] e(2) show ?thesis by simp
qed

lemma strip_spaced_strip: "strip (spaced f (strip y)) = strip (spaced f y)"
proof -
  have "strip (spaced f (strip y)) =
        rev (dropWhile isspace (rev (spaced True (rev (dropWhile isspace (rev (dropWhile isspace y)))))))"
    by (simp add: strip_def lstrip_spaced)
  also have "\<dots> = rev (dropWhile isspace (rev (spaced True (dropWhile isspace y))))"
    by (rule rstrip_spaced)
  also have "\<dots> = rev (dropWhile isspace (rev (spaced True y)))"
    by (simp add: spaced_lstrip)
  also have "\<dots> = strip (spaced f y)"
    by (simp add: strip_def lstrip_spaced)
  finally show ?thesis .
qed

lemma set_spaced: "c \<in> set (spaced f v) \<Longrightarrow> c = CHR '' '' \<or> (c \<in> set v \<and> \<not> not_kept c)"
  by (induction v arbitrary: f) (auto simp: spaced_Cons punct_kept split: if_splits)

lemma set_strip: "c \<in> set (strip x) \<Longrightarrow> c \<in> set x"
  by (auto simp: strip_def dest!: set_dropWhileD)


lemma code_point_less: "code_point c < 256"
  by (simp add: code_point_def)

lemma code_point_char_of: "k < 256 \<Longrightarrow> code_point (char_of k) = k"
  by (simp add: code_point_def)

text \<open>A character that \<open>lower\<close> leaves: not a capital letter of the range.\<close>

lemma lower_char_range:
  "\<not> (65 \<le> code_point (lower_char c) \<and> code_point (lower_char c) \<le> 90)
   \<and> \<not> (192 \<le> code_point (lower_char c) \<and> code_point (lower_char c) \<le> 222
        \<and> code_point (lower_char c) \<noteq> 215)"
proof (cases "(65 \<le> code_point c \<and> code_point c \<le> 90)
                \<or> (192 \<le> code_point c \<and> code_point c \<le> 222 \<and> code_point c \<noteq> 215)")
  case True
  then have "lower_char c = char_of (code_point c + 32)"
    by (simp add: lower_char_def Let_def)
  moreover from True have "code_point (char_of (code_point c + 32)) = code_point c + 32"
    by (intro code_point_char_of) auto
  ultimately show ?thesis using True by auto
next
  case False
  then have "lower_char c = c" by (auto simp: lower_char_def Let_def)
  with False show ?thesis by auto
qed

lemma nfd_table_base:
  "map_of nfd_table n = Some (b, m) \<Longrightarrow>
   (192 \<le> n \<and> n \<le> 221 \<and> n \<noteq> 215) \<or> (224 \<le> n \<and> 97 \<le> b \<and> b \<le> 122)"
  by (auto simp: nfd_table_def split: if_splits)


lemma set_join: "c \<in> set (join ps) \<Longrightarrow> Latin c \<in> set ps"
  by (induction ps rule: join.induct) auto

lemma set_unicode_to_ascii:
  "c \<in> set (unicode_to_ascii x) \<Longrightarrow> \<exists>d\<in>set x. Latin c \<in> set (nfd_char d)"
  by (auto simp: unicode_to_ascii_def normalize_NFD_def dest!: set_join)

lemma nfd_char_not_capital:
  assumes "Latin c \<in> set (nfd_char d)"
      and "\<not> (65 \<le> code_point d \<and> code_point d \<le> 90)"
      and "\<not> (192 \<le> code_point d \<and> code_point d \<le> 222 \<and> code_point d \<noteq> 215)"
  shows "\<not> (65 \<le> code_point c \<and> code_point c \<le> 90)"
proof (cases "code_point d < 0xC0")
  case True
  with assms(1) have "c = d" by (simp add: nfd_char_def Let_def)
  with assms(2) show ?thesis by simp
next
  case False
  show ?thesis
  proof (cases "map_of nfd_table (code_point d)")
    case None
    with False assms(1) have "c = d" by (simp add: nfd_char_def Let_def)
    with assms(2) show ?thesis by simp
  next
    case (Some bm)
    obtain b m where bm: "bm = (b, m)" by (cases bm)
    with Some False assms(1) have c: "c = char_of b" by (simp add: nfd_char_def Let_def)
    from nfd_table_base [of "code_point d" b m] Some bm assms(3)
    have b: "97 \<le> b" "b \<le> 122" by auto
    then have "code_point c = b" unfolding c by (intro code_point_char_of) simp
    with b show ?thesis by simp
  qed
qed

lemma cleaned_not_capital:
  assumes "c \<in> set (unicode_to_ascii (strip (lower w0)))"
  shows "\<not> (65 \<le> code_point c \<and> code_point c \<le> 90)"
proof -
  from set_unicode_to_ascii [OF assms] obtain d where
    d: "d \<in> set (strip (lower w0))" "Latin c \<in> set (nfd_char d)" by blast
  from d(1) have "d \<in> set (lower w0)" by (rule set_strip)
  then obtain c0 where "d = lower_char c0" by (auto simp: lower_def)
  with lower_char_range [of c0] d(2) show ?thesis
    by (intro nfd_char_not_capital [of c d]) auto
qed

lemma kept_small_fixed:
  assumes "\<not> not_kept c \<or> c = CHR '' ''"
      and "\<not> (65 \<le> code_point c \<and> code_point c \<le> 90)"
  shows "lower_char c = c \<and> code_point c < 0xC0"
proof -
  from assms(1) have "is_letter c \<or> is_punct c \<or> c = CHR '' ''"
    by (auto simp: not_kept_def)
  then have "code_point c < 192"
    by (auto simp: is_letter_def Let_def code_point_simps dest: is_punct_code)
  with assms(2) show ?thesis by (auto simp: lower_char_def Let_def)
qed

lemma lower_fixed: "\<forall>c\<in>set x. lower_char c = c \<Longrightarrow> lower x = x"
  by (simp add: lower_def map_idI)

lemma unicode_to_ascii_fixed: "\<forall>c\<in>set x. code_point c < 0xC0 \<Longrightarrow> unicode_to_ascii x = x"
  by (induction x) (simp_all add: unicode_to_ascii_def normalize_NFD_def nfd_char_def Let_def)

lemma set_sentence_body:
  assumes "c \<in> set (sentence_body w0)"
  shows "lower_char c = c \<and> code_point c < 0xC0"
proof -
  from assms have "c \<in> set (spaced False (unicode_to_ascii (strip (lower w0))))"
    unfolding sentence_body_spaced by (rule set_strip)
  from set_spaced [OF this] cleaned_not_capital [of c w0] show ?thesis
    by (intro kept_small_fixed) (auto simp: code_point_simps)
qed

lemma sentence_body_idempotent: "sentence_body (sentence_body w0) = sentence_body w0"
proof -
  let ?v = "unicode_to_ascii (strip (lower w0))"
  let ?b = "sentence_body w0"
  have b: "?b = strip (spaced False ?v)" by (rule sentence_body_spaced)
  have "lower ?b = ?b"
    using set_sentence_body [of _ w0] by (intro lower_fixed) blast
  moreover have "unicode_to_ascii (strip ?b) = strip ?b"
    using set_sentence_body [of _ w0] set_strip [of _ ?b] by (intro unicode_to_ascii_fixed) blast
  ultimately have "sentence_body ?b = strip (spaced False (strip ?b))"
    by (simp add: sentence_body_spaced [of ?b])
  also have "\<dots> = strip (spaced False ?b)"
    by (rule strip_spaced_strip)
  also have "\<dots> = strip (spaced False (spaced False ?v))"
    unfolding b by (rule strip_spaced_strip)
  also have "\<dots> = ?b"
    by (simp add: spaced_idem b)
  finally show ?thesis .
qed

lemma spaced_append:
  "spaced f (a @ r) =
     spaced f a @ spaced (if a = [] then f else is_punct (last a) \<or> not_kept (last a)) r"
proof (induction a arbitrary: f)
  case Nil
  then show ?case by simp
next
  case (Cons c a)
  show ?case
    by (cases "a = []") (auto simp: spaced_Cons Cons.IH punct_kept)
qed

lemma spaced_single:
  "spaced g [c] =
     (if is_punct c then (if g then [] else '' '') @ [c, CHR '' '']
      else if not_kept c then (if g then [] else '' '') else [c])"
  by (simp add: spaced_Cons)

lemma spaced_snoc:
  "spaced f (a @ [c]) =
     spaced f a @
     (let g = (if a = [] then f else is_punct (last a) \<or> not_kept (last a))
      in if is_punct c then (if g then [] else '' '') @ [c, CHR '' '']
         else if not_kept c then (if g then [] else '' '') else [c])"
  by (simp only: spaced_append [of f a "[c]"] spaced_single Let_def)

lemma spaced_last:
  "spaced f a \<noteq> [] \<Longrightarrow>
   (last (spaced f a) = CHR '' '') = (a \<noteq> [] \<and> (is_punct (last a) \<or> not_kept (last a)))"
proof (induction a rule: rev_induct)
  case Nil
  then show ?case by simp
next
  case (snoc c a)
  show ?case
  proof (cases "is_punct c")
    case True
    then show ?thesis by (simp add: spaced_snoc Let_def)
  next
    case np: False
    show ?thesis
    proof (cases "not_kept c")
      case False
      with np have "c \<noteq> CHR '' ''" by auto
      with np False show ?thesis by (simp add: spaced_snoc Let_def)
    next
      case True
      show ?thesis
      proof (cases "if a = [] then f else is_punct (last a) \<or> not_kept (last a)")
        case g: True
        with np True have e: "spaced f (a @ [c]) = spaced f a"
          by (simp add: spaced_snoc Let_def)
        with snoc.prems have ne: "spaced f a \<noteq> []" by simp
        then have "a \<noteq> []" by auto
        with g snoc.IH [OF ne] e True show ?thesis by simp
      next
        case g: False
        with np True show ?thesis by (simp add: spaced_snoc Let_def)
      qed
    qed
  qed
qed

lemma spaced_no_double_space:
  "spaced f a = out @ '' '' \<Longrightarrow> out = [] \<or> last out \<noteq> CHR '' ''"
proof (induction a arbitrary: out rule: rev_induct)
  case Nil
  then show ?case by simp
next
  case (snoc c a)
  let ?g = "if a = [] then f else is_punct (last a) \<or> not_kept (last a)"
  show ?case
  proof (cases "is_punct c")
    case True
    with snoc.prems have "out = spaced f a @ (if ?g then [] else '' '') @ [c]"
      by (simp add: spaced_snoc Let_def)
    moreover from True have "c \<noteq> CHR '' ''" by auto
    ultimately show ?thesis by simp
  next
    case np: False
    show ?thesis
    proof (cases "not_kept c")
      case False
      with np snoc.prems show ?thesis by (simp add: spaced_snoc Let_def)
    next
      case True
      show ?thesis
      proof (cases ?g)
        case g: True
        with np True have "spaced f (a @ [c]) = spaced f a"
          by (simp add: spaced_snoc Let_def)
        with snoc.prems snoc.IH [of out] show ?thesis by simp
      next
        case g: False
        with np True snoc.prems have o: "out = spaced f a"
          by (simp add: spaced_snoc Let_def)
        show ?thesis
        proof (cases "out = []")
          case True
          then show ?thesis by simp
        next
          case False
          with o have ne: "spaced f a \<noteq> []" by simp
          from g have "\<not> (a \<noteq> [] \<and> (is_punct (last a) \<or> not_kept (last a)))"
            by (auto split: if_splits)
          with spaced_last [OF ne] o show ?thesis by simp
        qed
      qed
    qed
  qed
qed

lemma sentence_body_rstrip:
  "sentence_body w0 =
     rev (dropWhile isspace (rev (spaced True (unicode_to_ascii (strip (lower w0))))))"
  by (simp add: sentence_body_spaced strip_def lstrip_spaced)

lemma sentence_body_last: "sentence_body w0 = [] \<or> \<not> isspace (last (sentence_body w0))"
proof (cases "sentence_body w0 = []")
  case True
  then show ?thesis by simp
next
  case False
  let ?o = "rev (spaced True (unicode_to_ascii (strip (lower w0))))"
  from False have ne: "dropWhile isspace ?o \<noteq> []"
    by (simp add: sentence_body_rstrip)
  then have "\<not> isspace (hd (dropWhile isspace ?o))" by (rule hd_dropWhile)
  moreover have "last (sentence_body w0) = hd (dropWhile isspace ?o)"
    using ne by (simp add: sentence_body_rstrip last_rev)
  ultimately show ?thesis by simp
qed

lemma spaced_body_space:
  assumes "sentence_body w0 \<noteq> []"
  shows "spaced True (sentence_body w0 @ '' '') = sentence_body w0 @ '' ''"
proof -
  let ?v = "unicode_to_ascii (strip (lower w0))"
  let ?b = "sentence_body w0"
  let ?g = "if ?v = [] then True else is_punct (last ?v) \<or> not_kept (last ?v)"
  from rstrip_decompose [of "spaced True ?v"] obtain r where
    r: "\<forall>c\<in>set r. isspace c" "spaced True ?v = ?b @ r"
    by (auto simp: sentence_body_rstrip)
  from assms r(2) have ne: "spaced True ?v \<noteq> []" by simp
  then have vne: "?v \<noteq> []" by auto
  have sp: "c = CHR '' ''" if "c \<in> set r" for c
  proof -
    from that r(2) have "c \<in> set (spaced True ?v)" by simp
    from set_spaced [OF this] that r(1) isspace_not_kept [of c] show ?thesis by auto
  qed
  have nl: "last ?b \<noteq> CHR '' ''"
    using sentence_body_last [of w0] assms by auto
  have "spaced True (?v @ '' '') = ?b @ '' ''"
  proof (cases r rule: rev_cases)
    case Nil
    with r(2) assms nl have "last (spaced True ?v) \<noteq> CHR '' ''" by simp
    with spaced_last [OF ne] vne have "\<not> ?g" by simp
    with Nil r(2) show ?thesis by (simp add: spaced_append spaced_single)
  next
    case (snoc r' c)
    with sp have c: "c = CHR '' ''" by simp
    with snoc r(2) have o: "spaced True ?v = (?b @ r') @ '' ''" by simp
    from spaced_no_double_space [OF this] assms have l: "last (?b @ r') \<noteq> CHR '' ''" by simp
    have "r' = []"
    proof (rule ccontr)
      assume "r' \<noteq> []"
      then have "last (?b @ r') = last r'" "last r' \<in> set r'" by simp_all
      with sp snoc l show False by simp
    qed
    with o have o': "spaced True ?v = ?b @ '' ''" by simp
    then have "last (spaced True ?v) = CHR '' ''" by simp
    with spaced_last [OF ne] vne have "?g" by simp
    with o' show ?thesis by (simp add: spaced_append spaced_single)
  qed
  then have "spaced True (?b @ '' '') = spaced True (spaced True (?v @ '' ''))" by simp
  also have "\<dots> = spaced True (?v @ '' '')" by (rule spaced_idem)
  also have "\<dots> = ?b @ '' ''" by fact
  finally show ?thesis .
qed

lemma literal_classes:
  "\<not> is_punct (CHR ''<'')" "not_kept (CHR ''<'')" "\<not> is_punct (CHR ''>'')" "not_kept (CHR ''>'')"
  "\<not> is_punct (CHR ''s'')" "\<not> not_kept (CHR ''s'')" "\<not> is_punct (CHR ''t'')" "\<not> not_kept (CHR ''t'')"
  "\<not> is_punct (CHR ''a'')" "\<not> not_kept (CHR ''a'')" "\<not> is_punct (CHR ''r'')" "\<not> not_kept (CHR ''r'')"
  "\<not> is_punct (CHR ''e'')" "\<not> not_kept (CHR ''e'')" "\<not> is_punct (CHR ''n'')" "\<not> not_kept (CHR ''n'')"
  "\<not> is_punct (CHR ''d'')" "\<not> not_kept (CHR ''d'')"
  "\<not> isspace (CHR ''<'')" "\<not> isspace (CHR ''>'')" "\<not> isspace (CHR ''s'')" "\<not> isspace (CHR ''d'')"
  by (simp_all add: is_punct_def not_kept_def is_letter_def isspace_def code_point_def Let_def)

lemma literal_fixed:
  "c \<in> set ''<start> end>'' \<Longrightarrow> lower_char c = c \<and> code_point c < 0xC0"
  by (auto simp: lower_char_def code_point_def Let_def)

lemma spaced_marked:
  "spaced False (''<start> '' @ sentence_body w0 @ '' <end>'') =
     '' start '' @ (if sentence_body w0 = [] then [] else sentence_body w0 @ '' '') @ ''end ''"
proof (cases "sentence_body w0 = []")
  case True
  then show ?thesis by (simp add: spaced_Cons literal_classes)
next
  case False
  have "spaced False (''<start> '' @ sentence_body w0 @ '' <end>'') =
        '' start '' @ spaced True ((sentence_body w0 @ '' '') @ ''<end>'')"
    by (simp add: spaced_Cons literal_classes)
  also have "spaced True ((sentence_body w0 @ '' '') @ ''<end>'') =
        spaced True (sentence_body w0 @ '' '') @ spaced True ''<end>''"
    by (simp only: spaced_append [of True "sentence_body w0 @ '' ''"]) simp
  also have "spaced True ''<end>'' = ''end ''"
    by (simp add: spaced_Cons literal_classes)
  finally show ?thesis using False by (simp add: spaced_body_space)
qed

lemma sentence_body_marked:
  "sentence_body (''<start> '' @ sentence_body w0 @ '' <end>'') =
     ''start '' @ (if sentence_body w0 = [] then [] else sentence_body w0 @ '' '') @ ''end''"
proof -
  let ?x = "''<start> '' @ sentence_body w0 @ '' <end>''"
  have fx: "lower_char c = c \<and> code_point c < 0xC0" if "c \<in> set ?x" for c
  proof -
    from that have "c \<in> set ''<start> end>'' \<or> c \<in> set (sentence_body w0)" by auto
    then show ?thesis using literal_fixed set_sentence_body by blast
  qed
  have l: "lower ?x = ?x"
    using fx by (intro lower_fixed) blast
  have s: "strip ?x = ?x"
    by (simp add: strip_def literal_classes)
  have u: "unicode_to_ascii ?x = ?x"
    using fx by (intro unicode_to_ascii_fixed) blast
  have "sentence_body ?x = strip (spaced False ?x)"
    by (simp only: sentence_body_spaced [of ?x] l s u)
  also have "\<dots> = ''start '' @ (if sentence_body w0 = [] then [] else sentence_body w0 @ '' '') @ ''end''"
    unfolding spaced_marked by (simp add: strip_def literal_classes)
  finally show ?thesis .
qed

text \<open>
  C6, as amended. What \<open>preprocess_sentence\<close> does before it adds the markers
  (\<open>sentence_body\<close>) is idempotent. \<open>preprocess_sentence\<close> itself is not: applied to its
  own output it reads the old markers as the words \<open>start\<close> and \<open>end\<close>, keeps the
  body between them, and adds a new pair of markers.
\<close>

theorem preprocess_twice:
  "sentence_body (sentence_body w) = sentence_body w
   \<and> preprocess_sentence (preprocess_sentence w) =
       ''<start> start '' @ (if sentence_body w = [] then [] else sentence_body w @ '' '')
         @ ''end <end>''"
proof -
  have "preprocess_sentence (preprocess_sentence w) =
        ''<start> '' @ sentence_body (''<start> '' @ sentence_body w @ '' <end>'') @ '' <end>''"
    by (simp only: preprocess_sentence_def)
  also have "\<dots> = ''<start> start '' @ (if sentence_body w = [] then [] else sentence_body w @ '' '')
         @ ''end <end>''"
    unfolding sentence_body_marked by simp
  finally show ?thesis by (simp only: sentence_body_idempotent simp_thms)
qed

theorem preprocess_twice_witness:
  "sentence_body ''Go.'' = ''go .''
   \<and> sentence_body (sentence_body ''Go.'') = sentence_body ''Go.''
   \<and> preprocess_sentence (preprocess_sentence ''Go.'') =
       ''<start> start '' @ (if sentence_body ''Go.'' = [] then [] else sentence_body ''Go.'' @ '' '')
         @ ''end <end>''"
proof -
  have "sentence_body ''Go.'' = ''go .''"
    by code_simp
  with preprocess_twice [of "''Go.''"] show ?thesis by blast
qed

text \<open>C6 as stated fails, for instance at the sentence of the specification's own
  example.\<close>

theorem preprocess_sentence_not_idempotent:
  "preprocess_sentence ''Go.'' = ''<start> go . <end>''
   \<and> preprocess_sentence (preprocess_sentence ''Go.'') = ''<start> start go . end <end>''
   \<and> preprocess_sentence (preprocess_sentence ''Go.'') \<noteq> preprocess_sentence ''Go.''"
  by code_simp

end
